theory Spec2Isabelle
  imports Complex_Main "HOL-Library.Sublist" "HOL-Library.Multiset"
begin

section \<open>Python text primitives\<close>

text \<open>
  A Python \<open>str\<close> is a sequence of code points. The model reads a \<open>char\<close> as the code
  point of the same number, so it covers texts over U+0000 .. U+00FF; on that range the
  predicates below are the ones of CPython: \<open>str.isspace\<close> holds for 0x09-0x0D, 0x1C-0x20,
  0x85 and 0xA0, and \<open>str.isdigit\<close> holds for the ten decimal digits and for the three
  superscript digits 0xB2, 0xB3 and 0xB9, which \<open>int()\<close> refuses.
\<close>

datatype error = ValueError | IndexError

definition is_space :: "char \<Rightarrow> bool" where
  "is_space c =
     (let n = (of_char c :: nat)
      in (9 \<le> n \<and> n \<le> 13) \<or> (28 \<le> n \<and> n \<le> 32) \<or> n = 133 \<or> n = 160)"

definition is_decimal :: "char \<Rightarrow> bool" where
  "is_decimal c = (let n = (of_char c :: nat) in 48 \<le> n \<and> n \<le> 57)"

definition is_digit :: "char \<Rightarrow> bool" where
  "is_digit c =
     (let n = (of_char c :: nat) in (48 \<le> n \<and> n \<le> 57) \<or> n = 178 \<or> n = 179 \<or> n = 185)"

definition lower_char :: "char \<Rightarrow> char" where
  "lower_char c =
     (let n = (of_char c :: nat)
      in if (65 \<le> n \<and> n \<le> 90) \<or> (192 \<le> n \<and> n \<le> 222 \<and> n \<noteq> 215)
         then char_of (n + 32) else c)"

definition lower :: "string \<Rightarrow> string" where
  "lower s = map lower_char s"

definition lstrip :: "string \<Rightarrow> string" where
  "lstrip s = dropWhile is_space s"

definition rstrip :: "string \<Rightarrow> string" where
  "rstrip s = rev (dropWhile is_space (rev s))"

definition strip :: "string \<Rightarrow> string" where
  "strip s = lstrip (rstrip s)"

definition rstrip_dot :: "string \<Rightarrow> string" where
  "rstrip_dot s = rev (dropWhile (\<lambda>c. c = CHR ''.'') (rev s))"

definition isdigit :: "string \<Rightarrow> bool" where
  "isdigit s = (s \<noteq> [] \<and> list_all is_digit s)"

definition digit_val :: "char \<Rightarrow> nat" where
  "digit_val c = of_char c - 48"

definition nat_of_digits :: "string \<Rightarrow> nat" where
  "nat_of_digits s = foldl (\<lambda>a c. 10 * a + digit_val c) 0 s"

text \<open>
  \<open>int(s)\<close> as the sources call it: always on a text made of \<open>isdigit\<close> characters and
  periods only, where it succeeds exactly on a non-empty run of decimal digits. Integers
  are unbounded; the interpreter's configurable limit on the length of a digit text is
  not modelled.
\<close>

definition py_int :: "string \<Rightarrow> error + int" where
  "py_int s =
     (if s \<noteq> [] \<and> list_all is_decimal s then Inr (int (nat_of_digits s)) else Inl ValueError)"

definition digit_char :: "nat \<Rightarrow> char" where
  "digit_char d = ''0123456789'' ! d"

fun str_of_nat :: "nat \<Rightarrow> string" where
  "str_of_nat n =
     (if n < 10 then [digit_char n] else str_of_nat (n div 10) @ [digit_char (n mod 10)])"

declare str_of_nat.simps [simp del]

definition py_str :: "int \<Rightarrow> string" where
  "py_str n = (if n < 0 then CHR ''-'' # str_of_nat (nat (- n)) else str_of_nat (nat n))"

section \<open>Ordinal suffixes\<close>

text \<open>The dictionary lookup \<open>{1: "st", 2: "nd", 3: "rd"}.get(n % 10, "th")\<close>.\<close>

definition last_digit_suffix :: "int \<Rightarrow> string" where
  "last_digit_suffix d =
     (if d = 1 then ''st'' else if d = 2 then ''nd'' else if d = 3 then ''rd'' else ''th'')"

definition suffix_10_20 :: "int \<Rightarrow> string" where
  "suffix_10_20 n =
     (if 10 \<le> n mod 100 \<and> n mod 100 \<le> 20 then ''th'' else last_digit_suffix (n mod 10))"

definition suffix_11_13 :: "int \<Rightarrow> string" where
  "suffix_11_13 n =
     (if 11 \<le> n mod 100 \<and> n mod 100 \<le> 13 then ''th'' else last_digit_suffix (n mod 10))"

text \<open>\<open>ordinal\<close> of home_builder.py; a place that is not numeric comes back as it was passed.\<close>

definition ordinal_home :: "string \<Rightarrow> error + string" where
  "ordinal_home place_str =
     (if place_str = [] then Inr []
      else let s = rstrip_dot (strip place_str)
           in if \<not> isdigit s then Inr place_str
              else case py_int s of
                     Inl e \<Rightarrow> Inl e
                   | Inr n \<Rightarrow> Inr (py_str n @ suffix_10_20 n))"

text \<open>\<open>ordinal\<close> of meets/meet_builder.py, the same text as the one of home_builder.py.\<close>

definition ordinal_meet :: "string \<Rightarrow> error + string" where
  "ordinal_meet place_str =
     (if place_str = [] then Inr []
      else let s = rstrip_dot (strip place_str)
           in if \<not> isdigit s then Inr place_str
              else case py_int s of
                     Inl e \<Rightarrow> Inl e
                   | Inr n \<Rightarrow> Inr (py_str n @ suffix_10_20 n))"

text \<open>
  \<open>ordinal\<close> of mens_team/athlete_builder.py; a place that is not numeric comes back
  trimmed. Its \<open>None\<close> test has no counterpart: the argument is always a text here.
\<close>

definition ordinal_athlete :: "string \<Rightarrow> error + string" where
  "ordinal_athlete place_str =
     (let s = rstrip_dot (strip place_str)
      in if \<not> isdigit s then Inr (strip place_str)
         else case py_int s of
                Inl e \<Rightarrow> Inl e
              | Inr n \<Rightarrow> Inr (py_str n @ suffix_10_20 n))"

text \<open>
  \<open>ordinal\<close> of meets/csv_to_race_page_html.py; a place that is not numeric comes back
  trimmed and without its trailing periods, and the exception for the teens is 11 to 13.
\<close>

definition ordinal_csv :: "string \<Rightarrow> error + string" where
  "ordinal_csv place0 =
     (let place = rstrip_dot (strip place0)
      in if \<not> isdigit place then Inr place
         else case py_int place of
                Inl e \<Rightarrow> Inl e
              | Inr n \<Rightarrow> Inr (py_str n @ suffix_11_13 n))"

text \<open>
  The rule in the specification's words: the teens always take "th", every other number
  takes the suffix of its last digit.
\<close>

definition english_suffix :: "int \<Rightarrow> string" where
  "english_suffix n =
     (if 11 \<le> n mod 100 \<and> n mod 100 \<le> 19 then ''th''
      else if n mod 10 = 1 then ''st''
      else if n mod 10 = 2 then ''nd''
      else if n mod 10 = 3 then ''rd''
      else ''th'')"

section \<open>Rows as dictionaries\<close>

text \<open>
  \<open>dict(zip(keys, cells))\<close> is kept as the list of its pairs; a lookup takes the last pair
  with the key, as the dictionary keeps the last value stored under a repeated column name.
  \<open>safe_get\<close> is \<open>d.get(key, default)\<close>; its \<open>None\<close> test never fires, every cell is a text.
\<close>

type_synonym dict = "(string \<times> string) list"

definition dict_zip :: "string list \<Rightarrow> string list \<Rightarrow> dict" where
  "dict_zip keys cells = zip keys cells"

definition safe_get :: "dict \<Rightarrow> string \<Rightarrow> string \<Rightarrow> string" where
  "safe_get d key dflt = (case map_of (rev d) key of None \<Rightarrow> dflt | Some v \<Rightarrow> v)"

text \<open>\<open>if len(r) < n: r = r + [""] * (n - len(r))\<close>.\<close>

definition pad_row :: "nat \<Rightarrow> string list \<Rightarrow> string list" where
  "pad_row n r = (if length r < n then r @ replicate (n - length r) [] else r)"

text \<open>\<open>any(cell.strip() for cell in row)\<close>.\<close>

definition any_cell :: "string list \<Rightarrow> bool" where
  "any_cell row = list_ex (\<lambda>cell. strip cell \<noteq> []) row"

fun join :: "string \<Rightarrow> string list \<Rightarrow> string" where
  "join sep [] = []"
| "join sep [x] = x"
| "join sep (x # y # ys) = x @ sep @ join sep (y # ys)"

section \<open>Sorting with a key that may raise\<close>

text \<open>
  \<open>sorted(xs, key=f)\<close> and \<open>xs.sort(key=f)\<close> compute the key of every element first, so
  an exception of \<open>f\<close> leaves the call; then they sort stably by the keys.
\<close>

fun keyed :: "('a \<Rightarrow> error + int) \<Rightarrow> 'a list \<Rightarrow> error + (int \<times> 'a) list" where
  "keyed f [] = Inr []"
| "keyed f (x # xs) =
     (case f x of
        Inl e \<Rightarrow> Inl e
      | Inr k \<Rightarrow> (case keyed f xs of Inl e \<Rightarrow> Inl e | Inr ks \<Rightarrow> Inr ((k, x) # ks)))"

definition py_sorted :: "('a \<Rightarrow> error + int) \<Rightarrow> 'a list \<Rightarrow> error + 'a list" where
  "py_sorted f xs =
     (case keyed f xs of Inl e \<Rightarrow> Inl e | Inr ks \<Rightarrow> Inr (map snd (sort_key fst ks)))"

section \<open>The athlete parser (mens_team/athlete_builder.py)\<close>

record season_record =
  sr_year :: string
  sr_grade :: string
  sr_time :: string

record race =
  race_grade :: string
  race_meet :: string
  race_url :: string
  race_time :: string
  race_place :: string

record athlete =
  athlete_name :: string
  athlete_id :: string
  season_records :: "season_record list"
  races :: "race list"
  most_recent_grade :: "string option"

text \<open>\<open>find_header_index\<close>; \<open>None\<close> stands for the pair \<open>(-1, None)\<close>.\<close>

fun find_header_from :: "nat \<Rightarrow> string list list \<Rightarrow> (nat \<times> string list) option" where
  "find_header_from i [] = None"
| "find_header_from i (r # rs) =
     (if r = [] then find_header_from (Suc i) rs
      else let joined = lower (join '','' (map strip r))
           in if sublist ''meet url'' joined \<and> sublist ''overall place'' joined
              then Some (i, r)
              else find_header_from (Suc i) rs)"

definition find_header_index :: "string list list \<Rightarrow> (nat \<times> string list) option" where
  "find_header_index rows = find_header_from 0 rows"

text \<open>The rows after the header, blank ones skipped, short ones padded, as dictionaries.\<close>

definition athlete_dict_rows :: "nat \<Rightarrow> string list \<Rightarrow> string list list \<Rightarrow> dict list" where
  "athlete_dict_rows header_idx header rows =
     (let data_rows = drop (header_idx + 1) rows;
          header_keys = map strip header
      in map (\<lambda>r. dict_zip header_keys (pad_row (length header_keys) r))
           (filter any_cell data_rows))"

text \<open>One turn of the loop over \<open>dict_rows\<close>, on the two lists built so far.\<close>

definition classify_row ::
  "dict \<Rightarrow> season_record list \<times> race list \<Rightarrow> season_record list \<times> race list" where
  "classify_row dr acc =
     (let overall_place = strip (safe_get dr ''Overall Place'' []);
          grade = strip (safe_get dr ''Grade'' []);
          time = strip (safe_get dr ''Time'' []);
          meet = strip (safe_get dr ''Meet'' []);
          meet_url = strip (safe_get dr ''Meet URL'' [])
      in if isdigit overall_place \<and> length overall_place = 4 \<and> grade \<noteq> []
         then (fst acc @ [\<lparr>sr_year = overall_place, sr_grade = grade, sr_time = time\<rparr>],
               snd acc)
         else if meet \<noteq> []
         then (fst acc,
               snd acc @ [\<lparr>race_grade = grade, race_meet = meet,
                           race_url = (if meet_url = [] then ''#'' else meet_url),
                           race_time = time, race_place = overall_place\<rparr>])
         else acc)"

definition classify_rows :: "dict list \<Rightarrow> season_record list \<times> race list" where
  "classify_rows dict_rows = foldl (\<lambda>acc dr. classify_row dr acc) ([], []) dict_rows"

text \<open>The sort key \<open>int(x["year"]) if str(x["year"]).isdigit() else -1\<close>.\<close>

definition year_key :: "season_record \<Rightarrow> error + int" where
  "year_key x = (if isdigit (sr_year x) then py_int (sr_year x) else Inr (- 1))"

definition find_most_recent_grade :: "season_record list \<Rightarrow> error + string option" where
  "find_most_recent_grade srs =
     (if srs = [] then Inr None
      else case py_sorted year_key srs of
             Inl e \<Rightarrow> Inl e
           | Inr season_records_sorted \<Rightarrow> Inr (Some (sr_grade (last season_records_sorted))))"

text \<open>\<open>if most_recent_grade:\<close> holds for a grade that is there and not empty.\<close>

definition backfill :: "string option \<Rightarrow> race list \<Rightarrow> race list" where
  "backfill mrg rs =
     (case mrg of
        None \<Rightarrow> rs
      | Some g \<Rightarrow>
          if g = [] then rs
          else map (\<lambda>r. if race_grade r = [] then r\<lparr>race_grade := g\<rparr> else r) rs)"

text \<open>
  \<open>parse_athlete_csv\<close> on the rows \<open>csv.reader\<close> returned. The missing header raises
  \<open>ValueError\<close>, and so does \<open>int()\<close> on a year of superscript digits.
\<close>

definition parse_athlete_csv :: "string list list \<Rightarrow> error + athlete" where
  "parse_athlete_csv rows =
     (let name = (if length rows > 0 \<and> rows ! 0 \<noteq> [] then strip (rows ! 0 ! 0) else []);
          ident = (if length rows > 1 \<and> rows ! 1 \<noteq> [] then strip (rows ! 1 ! 0) else [])
      in case find_header_index rows of
           None \<Rightarrow> Inl ValueError
         | Some (header_idx, header) \<Rightarrow>
             (let classified = classify_rows (athlete_dict_rows header_idx header rows)
              in (case find_most_recent_grade (fst classified) of
                    Inl e \<Rightarrow> Inl e
                  | Inr mrg \<Rightarrow>
                      Inr \<lparr>athlete_name = name, athlete_id = ident,
                           season_records = fst classified,
                           races = backfill mrg (snd classified),
                           most_recent_grade = mrg\<rparr>)))"

text \<open>The classification in the specification's words, on the trimmed fields of a row.\<close>

definition field :: "dict \<Rightarrow> string \<Rightarrow> string" where
  "field d key = strip (safe_get d key [])"

definition is_season_row :: "dict \<Rightarrow> bool" where
  "is_season_row d =
     (isdigit (field d ''Overall Place'') \<and> length (field d ''Overall Place'') = 4
      \<and> field d ''Grade'' \<noteq> [])"

definition is_race_row :: "dict \<Rightarrow> bool" where
  "is_race_row d = (\<not> is_season_row d \<and> field d ''Meet'' \<noteq> [])"

definition season_of :: "dict \<Rightarrow> season_record" where
  "season_of d =
     \<lparr>sr_year = field d ''Overall Place'', sr_grade = field d ''Grade'',
      sr_time = field d ''Time''\<rparr>"

definition race_of :: "dict \<Rightarrow> race" where
  "race_of d =
     \<lparr>race_grade = field d ''Grade'', race_meet = field d ''Meet'',
      race_url = (if field d ''Meet URL'' = [] then ''#'' else field d ''Meet URL''),
      race_time = field d ''Time'', race_place = field d ''Overall Place''\<rparr>"

text \<open>The key of an element whose key function returned; 0 stands in where it raised.\<close>

definition key_value :: "('a \<Rightarrow> error + int) \<Rightarrow> 'a \<Rightarrow> int" where
  "key_value f x = (case f x of Inl e \<Rightarrow> 0 | Inr k \<Rightarrow> k)"

text \<open>The number a season record's year denotes.\<close>

definition year_number :: "season_record \<Rightarrow> int" where
  "year_number s = int (nat_of_digits (sr_year s))"

text \<open>
  The back-fill in the specification's words: a race with a blank grade takes the most
  recent grade when there is one, every other race stays as it is.
\<close>

definition spec_backfill :: "string option \<Rightarrow> race \<Rightarrow> race" where
  "spec_backfill mrg r =
     (if race_grade r = []
      then (case mrg of None \<Rightarrow> r | Some g \<Rightarrow> r\<lparr>race_grade := g\<rparr>)
      else r)"

text \<open>An athlete file: name, id, a blank row, the header, then seasons and races.\<close>

definition athlete_header :: "string list" where
  "athlete_header =
     [''Name'', ''Overall Place'', ''Grade'', ''Time'', ''Date'', ''Meet'', ''Meet URL'',
      ''Comments'', ''Photo'']"

definition athlete_rows :: "string list list" where
  "athlete_rows =
     [[''Pat Runner''], [''123''], [], athlete_header,
      ['''', ''2023'', ''12'', ''17:55.6 SR''],
      ['''', ''2022'', ''11'', ''18:40.1''],
      ['''', ''2023'', '''', ''18:01.2'', ''Sep 9'', ''Invitational''],
      ['''', '' '', ''''],
      ['''', ''5'', '''', ''18:30.0'', ''Sep 16'', '''', ''http://x''],
      ['''', ''7.'', ''10'', ''19:02.0'', ''Sep 3 2021'', ''Jamboree'', ''http://y'']]"

text \<open>What \<open>parse_athlete_csv\<close> returns on that file.\<close>

definition athlete_parsed :: athlete where
  "athlete_parsed =
     \<lparr>athlete_name = ''Pat Runner'', athlete_id = ''123'',
          season_records =
            [\<lparr>sr_year = ''2023'', sr_grade = ''12'', sr_time = ''17:55.6 SR''\<rparr>,
             \<lparr>sr_year = ''2022'', sr_grade = ''11'', sr_time = ''18:40.1''\<rparr>],
          races =
            [\<lparr>race_grade = ''12'', race_meet = ''Invitational'', race_url = ''#'',
              race_time = ''18:01.2'', race_place = ''2023''\<rparr>,
             \<lparr>race_grade = ''10'', race_meet = ''Jamboree'', race_url = ''http://y'',
              race_time = ''19:02.0'', race_place = ''7.''\<rparr>],
          most_recent_grade = Some ''12''\<rparr>"

section \<open>Times (mens_team/athlete_builder.py)\<close>



text \<open>\<open>s.split(sep)\<close> for a separator of one character.\<close>

fun split_on :: "char \<Rightarrow> string \<Rightarrow> string list" where
  "split_on sep [] = [[]]"
| "split_on sep (c # cs) =
     (if c = sep then [] # split_on sep cs
      else case split_on sep cs of [] \<Rightarrow> [[c]] | w # ws \<Rightarrow> (c # w) # ws)"




section \<open>Summaries as plain text\<close>

text \<open>
  \<open>html.unescape\<close> and \<open>csv.reader\<close> belong to the standard library, not to the
  repository: the functions that call them take them as the parameters \<open>unescape\<close> and
  \<open>reader\<close>. Where a statement needs a concrete function, \<open>unescape_basic\<close> decodes the
  references \<open>&lt; &gt; &amp; &quot; &#39;\<close> as \<open>html.unescape\<close> does and leaves other text
  alone, and \<open>simple_reader\<close> splits each line at its commas, as \<open>csv.reader\<close> does on
  lines that are not empty and hold no quote character.
\<close>

fun unescape_basic :: "string \<Rightarrow> string" where
  "unescape_basic [] = []"
| "unescape_basic (c # cs) =
     (if c = CHR ''&'' \<and> prefix ''lt;'' cs then CHR ''<'' # unescape_basic (drop 3 cs)
      else if c = CHR ''&'' \<and> prefix ''gt;'' cs then CHR ''>'' # unescape_basic (drop 3 cs)
      else if c = CHR ''&'' \<and> prefix ''amp;'' cs then CHR ''&'' # unescape_basic (drop 4 cs)
      else if c = CHR ''&'' \<and> prefix ''quot;'' cs then CHR 0x22 # unescape_basic (drop 5 cs)
      else if c = CHR ''&'' \<and> prefix ''#39;'' cs then CHR 0x27 # unescape_basic (drop 4 cs)
      else c # unescape_basic cs)"

definition simple_reader :: "string list \<Rightarrow> string list list" where
  "simple_reader lines = map (split_on CHR '','') lines"

text \<open>
  \<open>re.sub(r"<[^>]+>", "", text)\<close>: a tag is \<open><\<close>, one or more characters other than
  \<open>>\<close>, and \<open>>\<close>; matches are removed from left to right.
\<close>

function strip_tags :: "string \<Rightarrow> string" where
  "strip_tags [] = []"
| "strip_tags (c # cs) =
     (if c = CHR ''<'' \<and> takeWhile (\<lambda>x. x \<noteq> CHR ''>'') cs \<noteq> []
         \<and> dropWhile (\<lambda>x. x \<noteq> CHR ''>'') cs \<noteq> []
      then strip_tags (tl (dropWhile (\<lambda>x. x \<noteq> CHR ''>'') cs))
      else c # strip_tags cs)"
  by pat_completeness auto
termination
proof (relation "measure length")
  show "wf (measure length)"
    by simp
next
  fix c :: char and cs :: string
  have "length (dropWhile (\<lambda>x. x \<noteq> CHR ''>'') cs) \<le> length cs"
    by (rule length_dropWhile_le)
  then have "length (tl (dropWhile (\<lambda>x. x \<noteq> CHR ''>'') cs)) \<le> length cs"
    by simp
  then show "(tl (dropWhile (\<lambda>x. x \<noteq> CHR ''>'') cs), c # cs) \<in> measure length"
    by simp
next
  fix c :: char and cs :: string
  show "(cs, c # cs) \<in> measure length"
    by simp
qed

text \<open>\<open>text.split()\<close>: the maximal runs of characters that are not white space.\<close>

fun words_from :: "string \<Rightarrow> string \<Rightarrow> string list" where
  "words_from w [] = (if w = [] then [] else [rev w])"
| "words_from w (c # cs) =
     (if is_space c then (if w = [] then words_from [] cs else rev w # words_from [] cs)
      else words_from (c # w) cs)"

definition split_ws :: "string \<Rightarrow> string list" where
  "split_ws s = words_from [] s"

text \<open>\<open>strip_html\<close> of home_builder.py and of meets/meet_builder.py (the same text).\<close>

definition strip_html :: "(string \<Rightarrow> string) \<Rightarrow> string \<Rightarrow> string" where
  "strip_html unescape text =
     (if text = [] then []
      else strip (join '' '' (split_ws (strip_tags (unescape text)))))"

text \<open>
  \<open>re.sub(r"<\s*br\s*/?>", "\n", s, flags=re.I)\<close>. \<open>match_br\<close> reads the text after a
  \<open><\<close> and returns what follows the tag when there is one.
\<close>

definition match_br :: "string \<Rightarrow> string option" where
  "match_br cs =
     (case dropWhile is_space cs of
        b # r # cs1 \<Rightarrow>
          if lower_char b = CHR ''b'' \<and> lower_char r = CHR ''r''
          then (case dropWhile is_space cs1 of
                  [] \<Rightarrow> None
                | x # cs2 \<Rightarrow>
                    if x = CHR ''>'' then Some cs2
                    else if x = CHR ''/''
                    then (case cs2 of [] \<Rightarrow> None | y # cs3 \<Rightarrow> if y = CHR ''>'' then Some cs3 else None)
                    else None)
          else None
      | _ \<Rightarrow> None)"

function br_to_newline :: "string \<Rightarrow> string" where
  "br_to_newline [] = []"
| "br_to_newline (c # cs) =
     (if c = CHR ''<'' \<and> match_br cs \<noteq> None
      then CHR 0x0A # br_to_newline (the (match_br cs))
      else c # br_to_newline cs)"
  by pat_completeness auto
termination
proof (relation "measure length")
  show "wf (measure length)"
    by simp
next
  fix c :: char and cs :: string
  assume "c = CHR ''<'' \<and> match_br cs \<noteq> None"
  then obtain rest where m: "match_br cs = Some rest"
    by auto
  have d: "\<And>xs. length (dropWhile is_space xs) \<le> length xs"
    by (rule length_dropWhile_le)
  from m obtain b r cs1 where 1: "dropWhile is_space cs = b # r # cs1"
    by (auto simp: match_br_def split: list.splits)
  with m obtain x cs2 where 2: "dropWhile is_space cs1 = x # cs2" and 3: "length rest \<le> length cs2"
    by (auto simp: match_br_def split: list.splits if_splits)
  from d [of cs] 1 have "length cs1 < length cs"
    by simp
  moreover from d [of cs1] 2 have "length cs2 < length cs1"
    by simp
  ultimately have "length rest < Suc (length cs)"
    using 3 by simp
  with m show "(the (match_br cs), c # cs) \<in> measure length"
    by simp
next
  fix c :: char and cs :: string
  show "(cs, c # cs) \<in> measure length"
    by simp
qed

text \<open>\<open>strip_html_tags\<close> of meets/csv_to_race_page_html.py.\<close>

definition strip_html_tags :: "(string \<Rightarrow> string) \<Rightarrow> string \<Rightarrow> string" where
  "strip_html_tags unescape s = strip (unescape (strip_tags (br_to_newline s)))"

section \<open>The meet pages (meets/meet_builder.py)\<close>

definition SKYLINE_TEAM_NAME :: string where
  "SKYLINE_TEAM_NAME = ''Ann Arbor Skyline''"

text \<open>\<open>find_line_index\<close>, the first line that starts with the text; \<open>None\<close> stands for -1.\<close>

fun find_line_from :: "nat \<Rightarrow> string list \<Rightarrow> string \<Rightarrow> nat option" where
  "find_line_from i [] startswith = None"
| "find_line_from i (line # lines) startswith =
     (if prefix startswith line then Some i else find_line_from (Suc i) lines startswith)"

definition find_line_index :: "string list \<Rightarrow> string \<Rightarrow> nat option" where
  "find_line_index lines startswith = find_line_from 0 lines startswith"

definition parse_csv_block :: "(string list \<Rightarrow> string list list) \<Rightarrow> string list \<Rightarrow> string list list" where
  "parse_csv_block reader block_lines = filter any_cell (reader block_lines)"

text \<open>\<open>place_key\<close> of meets/meet_builder.py and of home_builder.py (the same text).\<close>

definition place_key :: "dict \<Rightarrow> error + int" where
  "place_key r =
     (let p = rstrip_dot (strip (safe_get r ''Place'' []))
      in if isdigit p then py_int p else Inr 999999)"

text \<open>The cells of one table row of the page.\<close>

record page_row =
  pr_name :: string
  pr_time :: string
  pr_place :: string
  pr_grade :: string
  pr_athlete_link :: string

fun page_rows :: "dict list \<Rightarrow> error + page_row list" where
  "page_rows [] = Inr []"
| "page_rows (r # rs) =
     (case ordinal_meet (safe_get r ''Place'' []) of
        Inl e \<Rightarrow> Inl e
      | Inr place \<Rightarrow>
          (case page_rows rs of
             Inl e \<Rightarrow> Inl e
           | Inr out \<Rightarrow>
               Inr (\<lparr>pr_name = safe_get r ''Name'' [], pr_time = safe_get r ''Time'' [],
                     pr_place = place, pr_grade = safe_get r ''Grade'' [],
                     pr_athlete_link = safe_get r ''Athlete Link'' ''#''\<rparr> # out)))"

text \<open>
  What the script does with one file: it prints a message and goes to the next file
  (\<open>Skip\<close>), or an exception leaves the loop (\<open>Raise\<close>), or it writes a page.
\<close>

datatype skip_reason = NotEnoughLines | MissingHeaders | NoDataRows

datatype failure = Skip skip_reason | Raise error

record meet_page =
  mp_name :: string
  mp_date :: string
  mp_link :: string
  mp_summary :: string
  mp_individuals :: "dict list"
  mp_skyline :: "dict list"
  mp_rows :: "page_row list"

text \<open>The rows of the individual block as dictionaries, short rows padded.\<close>

definition indiv_dicts_of :: "string list list \<Rightarrow> dict list" where
  "indiv_dicts_of indiv_rows =
     (let indiv_header = indiv_rows ! 0;
          indiv_data = drop 1 indiv_rows
      in map (\<lambda>row. dict_zip indiv_header (pad_row (length indiv_header) row)) indiv_data)"

definition skyline_filter :: "dict list \<Rightarrow> dict list" where
  "skyline_filter indiv_dicts =
     filter (\<lambda>r. strip (safe_get r ''Team'' []) = SKYLINE_TEAM_NAME) indiv_dicts"

text \<open>The rows of the individual block: the lines from the header on, blank ones left out.\<close>

definition indiv_rows_of :: "(string list \<Rightarrow> string list list) \<Rightarrow> string list \<Rightarrow> string list list" where
  "indiv_rows_of reader lines =
     (let indiv_header_idx = the (find_line_index lines ''Place,Grade,Name,'');
          indiv_block_lines = filter (\<lambda>line. strip line \<noteq> []) (drop indiv_header_idx lines)
      in parse_csv_block reader indiv_block_lines)"

text \<open>
  The body of the loop over the files, on the lines of one file. The sort runs only on a
  list that is not empty.
\<close>

definition meet_page_of ::
  "(string list \<Rightarrow> string list list) \<Rightarrow> (string \<Rightarrow> string) \<Rightarrow> string list
     \<Rightarrow> failure + meet_page" where
  "meet_page_of reader unescape lines =
     (if length lines < 6 then Inl (Skip NotEnoughLines)
      else if find_line_index lines ''Place,Team,Score'' = None
              \<or> find_line_index lines ''Place,Grade,Name,'' = None
      then Inl (Skip MissingHeaders)
      else if length (indiv_rows_of reader lines) < 2 then Inl (Skip NoDataRows)
      else let indiv_dicts = indiv_dicts_of (indiv_rows_of reader lines);
               skyline = skyline_filter indiv_dicts
           in (case (if skyline = [] then Inr [] else py_sorted place_key skyline) of
                 Inl e \<Rightarrow> Inl (Raise e)
               | Inr sorted_skyline \<Rightarrow>
                   (case page_rows sorted_skyline of
                      Inl e \<Rightarrow> Inl (Raise e)
                    | Inr table \<Rightarrow>
                        Inr \<lparr>mp_name = strip (lines ! 0), mp_date = strip (lines ! 1),
                             mp_link = strip (lines ! 2),
                             mp_summary = strip_html unescape (strip (lines ! 3)),
                             mp_individuals = indiv_dicts,
                             mp_skyline = sorted_skyline, mp_rows = table\<rparr>)))"

section \<open>The meet pages (meets/csv_to_race_page_html.py)\<close>

record team_result =
  tr_place :: string
  tr_team :: string
  tr_score :: string

record individual_result =
  ir_place :: string
  ir_grade :: string
  ir_name :: string
  ir_athlete_link :: string
  ir_time :: string
  ir_team :: string
  ir_team_link :: string
  ir_profile_pic :: string

record meet =
  meet_name :: string
  meet_date :: string
  meet_url :: string
  summary_text :: string
  team_results :: "team_result list"
  individual_results :: "individual_result list"
  meet_id :: "string option"

text \<open>\<open>re.search(r"/meet/(\d+)", url)\<close>: the digits after the first such place.\<close>

fun extract_meet_id :: "string \<Rightarrow> string option" where
  "extract_meet_id [] = None"
| "extract_meet_id (c # cs) =
     (if prefix ''/meet/'' (c # cs) \<and> takeWhile is_decimal (drop 6 (c # cs)) \<noteq> []
      then Some (takeWhile is_decimal (drop 6 (c # cs)))
      else extract_meet_id cs)"

text \<open>\<open>row[0]\<close> raises \<open>IndexError\<close> on the empty row that a blank line gives.\<close>

definition cell0 :: "string list \<Rightarrow> error + string" where
  "cell0 row = (case row of [] \<Rightarrow> Inl IndexError | c # cs \<Rightarrow> Inr c)"

text \<open>\<open>len(row) == 0 or all(c.strip() == "" for c in row)\<close>.\<close>

definition blank_row :: "string list \<Rightarrow> bool" where
  "blank_row row = (row = [] \<or> list_all (\<lambda>c. strip c = []) row)"

text \<open>The quotes around the summary are dropped with \<open>summary_raw[1:-1]\<close>.\<close>

definition unquote :: "string \<Rightarrow> string" where
  "unquote s =
     (if s \<noteq> [] \<and> ((hd s = CHR 0x22 \<and> last s = CHR 0x22) \<or> (hd s = CHR 0x27 \<and> last s = CHR 0x27))
      then butlast (tl s) else s)"

text \<open>
  The \<open>while\<close> loop over the team table, on the rows from the fifth on: it returns the
  team results and the rows that are left when the loop ends.
\<close>

fun team_loop :: "string list list \<Rightarrow> team_result list \<times> string list list" where
  "team_loop [] = ([], [])"
| "team_loop (row # rest) =
     (if blank_row row then ([], rest)
      else let found = team_loop rest
           in ((if 3 \<le> length row \<and> strip (row ! 0) \<noteq> ''Place''
                then [\<lparr>tr_place = strip (row ! 0), tr_team = strip (row ! 1),
                       tr_score = strip (row ! 2)\<rparr>]
                else []) @ fst found,
               snd found))"

text \<open>The header of the individual table is passed over when it is there.\<close>

definition skip_individual_header :: "string list list \<Rightarrow> string list list" where
  "skip_individual_header rows =
     (case rows of
        [] \<Rightarrow> []
      | row # rest \<Rightarrow> if 8 \<le> length row \<and> strip (row ! 0) = ''Place'' then rest else rows)"

definition individual_of :: "string list \<Rightarrow> individual_result" where
  "individual_of row =
     \<lparr>ir_place = strip (row ! 0), ir_grade = strip (row ! 1), ir_name = strip (row ! 2),
      ir_athlete_link = strip (row ! 3), ir_time = strip (row ! 4), ir_team = strip (row ! 5),
      ir_team_link = strip (row ! 6), ir_profile_pic = strip (row ! 7)\<rparr>"

text \<open>The \<open>for\<close> loop: blank rows and rows of fewer than 8 cells are passed over.\<close>

definition individual_loop :: "string list list \<Rightarrow> individual_result list" where
  "individual_loop rows =
     map individual_of (filter (\<lambda>row. \<not> blank_row row \<and> 8 \<le> length row) rows)"

definition parse_custom_meet_csv :: "(string \<Rightarrow> string) \<Rightarrow> string list list \<Rightarrow> error + meet" where
  "parse_custom_meet_csv unescape rows =
     (if length rows < 5 then Inl ValueError
      else case cell0 (rows ! 0) of Inl e \<Rightarrow> Inl e | Inr name \<Rightarrow>
           (case cell0 (rows ! 1) of Inl e \<Rightarrow> Inl e | Inr date \<Rightarrow>
           (case cell0 (rows ! 2) of Inl e \<Rightarrow> Inl e | Inr url \<Rightarrow>
           (case cell0 (rows ! 3) of Inl e \<Rightarrow> Inl e | Inr summary \<Rightarrow>
              (let teams = team_loop (drop 4 rows)
               in Inr \<lparr>meet_name = strip name, meet_date = strip date, meet_url = strip url,
                       summary_text = strip_html_tags unescape (unquote (strip summary)),
                       team_results = fst teams,
                       individual_results = individual_loop (skip_individual_header (snd teams)),
                       meet_id = extract_meet_id (strip url)\<rparr>)))))"

text \<open>The runners that \<open>build_race_page_html\<close> shows.\<close>

definition skyline_of :: "individual_result list \<Rightarrow> individual_result list" where
  "skyline_of results = filter (\<lambda>r. lower (strip (ir_team r)) = ''ann arbor skyline'') results"

definition runners_of :: "individual_result list \<Rightarrow> individual_result list" where
  "runners_of results = (if skyline_of results \<noteq> [] then skyline_of results else results)"

section \<open>Notions used in the statements\<close>

text \<open>The place of a row as the sort reads it: trimmed, trailing periods removed.\<close>

definition place_text :: "dict \<Rightarrow> string" where
  "place_text r = rstrip_dot (strip (safe_get r ''Place'' []))"

text \<open>A text that holds no white space and is not empty.\<close>

definition solid_word :: "string \<Rightarrow> bool" where
  "solid_word w = (w \<noteq> [] \<and> list_all (\<lambda>c. \<not> is_space c) w)"

section \<open>Sample files\<close>

text \<open>A meet file in the layout of meet_builder.py; its last row is short.\<close>

definition meet_lines :: "string list" where
  "meet_lines =
     [''Season Opener'', ''Sep 1 2024'', ''http://x/meet/12'', ''<p>A  fine day</p>'',
      ''Place,Team,Score'', ''1,Ann Arbor Skyline,20'', [],
      ''Place,Grade,Name,Athlete Link,Time,Team'',
      ''3,11,Al,http://a,17:01,Ann Arbor Skyline'',
      ''1.,12,Bo,http://b,16:02,Ann Arbor Skyline'',
      ''2,10,Cy,http://c,16:30,Saline'',
      ''abc,9,Di'']"

definition meet_table_header :: "string list" where
  "meet_table_header = [''Place'', ''Grade'', ''Name'', ''Athlete Link'', ''Time'', ''Team'']"

definition row_al :: dict where
  "row_al = zip meet_table_header [''3'', ''11'', ''Al'', ''http://a'', ''17:01'', ''Ann Arbor Skyline'']"

definition row_bo :: dict where
  "row_bo = zip meet_table_header [''1.'', ''12'', ''Bo'', ''http://b'', ''16:02'', ''Ann Arbor Skyline'']"

definition row_cy :: dict where
  "row_cy = zip meet_table_header [''2'', ''10'', ''Cy'', ''http://c'', ''16:30'', ''Saline'']"

definition row_di :: dict where
  "row_di = zip meet_table_header [''abc'', ''9'', ''Di'', [], [], []]"

text \<open>The page of that file.\<close>

definition meet_page_sample :: meet_page where
  "meet_page_sample =
     \<lparr>mp_name = ''Season Opener'', mp_date = ''Sep 1 2024'', mp_link = ''http://x/meet/12'',
      mp_summary = ''A fine day'',
      mp_individuals = [row_al, row_bo, row_cy, row_di],
      mp_skyline = [row_bo, row_al],
      mp_rows =
        [\<lparr>pr_name = ''Bo'', pr_time = ''16:02'', pr_place = ''1st'', pr_grade = ''12'',
          pr_athlete_link = ''http://b''\<rparr>,
         \<lparr>pr_name = ''Al'', pr_time = ''17:01'', pr_place = ''3rd'', pr_grade = ''11'',
          pr_athlete_link = ''http://a''\<rparr>]\<rparr>"

text \<open>The same file cut after the header of the individual table, and with one runner
  of another team.\<close>

definition meet_lines_no_rows :: "string list" where
  "meet_lines_no_rows = take 8 meet_lines"

definition meet_lines_other_team :: "string list" where
  "meet_lines_other_team = take 8 meet_lines @ [''2,10,Cy,http://c,16:30,Saline'']"

text \<open>Files in the layout of csv_to_race_page_html.py, as rows.\<close>

definition custom_rows_no_individuals :: "string list list" where
  "custom_rows_no_individuals =
     [[''Season Opener''], [''Sep 1 2024''], [''http://x/meet/12''], [''<p>A  fine day</p>''],
      [''Place'', ''Team'', ''Score''], [''1'', ''Ann Arbor Skyline'', ''20'']]"

definition custom_table_header :: "string list" where
  "custom_table_header =
     [''Place'', ''Grade'', ''Name'', ''Athlete Link'', ''Time'', ''Team'', ''Team Link'',
      ''Profile Pic'']"

definition custom_rows_short :: "string list list" where
  "custom_rows_short =
     custom_rows_no_individuals @
     [[], custom_table_header,
      [''1'', ''12'', ''Bo'', ''http://b'', ''16:02'', ''ann arbor skyline'', ''http://t'', ''bo.jpg''],
      [''2'', ''10'', ''Cy'', ''http://c'', ''16:30'', ''Saline'', ''http://s'']]"

definition result_bo :: individual_result where
  "result_bo =
     \<lparr>ir_place = ''1'', ir_grade = ''12'', ir_name = ''Bo'', ir_athlete_link = ''http://b'',
      ir_time = ''16:02'', ir_team = ''ann arbor skyline'', ir_team_link = ''http://t'',
      ir_profile_pic = ''bo.jpg''\<rparr>"

definition result_cy :: individual_result where
  "result_cy =
     \<lparr>ir_place = ''2'', ir_grade = ''10'', ir_name = ''Cy'', ir_athlete_link = ''http://c'',
      ir_time = ''16:30'', ir_team = ''Saline'', ir_team_link = ''http://s'',
      ir_profile_pic = ''cy.jpg''\<rparr>"


section \<open>Facts about the text primitives\<close>

lemma digit_val_digit_char: "d < 10 \<Longrightarrow> digit_val (digit_char d) = d"
proof -
  assume "d < 10"
  then consider "d = 0" | "d = 1" | "d = 2" | "d = 3" | "d = 4" | "d = 5" | "d = 6"
    | "d = 7" | "d = 8" | "d = 9"
    by atomize_elim arith
  then show ?thesis
    by cases (simp_all add: digit_val_def digit_char_def)
qed

lemma is_decimal_digit_char: "d < 10 \<Longrightarrow> is_decimal (digit_char d)"
proof -
  assume "d < 10"
  then consider "d = 0" | "d = 1" | "d = 2" | "d = 3" | "d = 4" | "d = 5" | "d = 6"
    | "d = 7" | "d = 8" | "d = 9"
    by atomize_elim arith
  then show ?thesis
    by cases (simp_all add: is_decimal_def digit_char_def)
qed

lemma is_decimal_not_space: "is_decimal c \<Longrightarrow> \<not> is_space c"
  by (auto simp: is_decimal_def is_space_def Let_def)

lemma is_decimal_not_dot: "is_decimal c \<Longrightarrow> c \<noteq> CHR ''.''"
  by (auto simp: is_decimal_def)

lemma is_decimal_is_digit: "is_decimal c \<Longrightarrow> is_digit c"
  by (auto simp: is_decimal_def is_digit_def Let_def)

lemma str_of_nat_nonempty: "str_of_nat n \<noteq> []"
  by (subst str_of_nat.simps) simp

lemma str_of_nat_decimal: "list_all is_decimal (str_of_nat n)"
proof (induction n rule: str_of_nat.induct)
  case (1 n)
  show ?case
  proof (cases "n < 10")
    case True
    then show ?thesis
      by (subst str_of_nat.simps) (simp add: is_decimal_digit_char)
  next
    case False
    with "1" show ?thesis
      by (subst str_of_nat.simps) (simp add: is_decimal_digit_char)
  qed
qed

lemma nat_of_digits_snoc: "nat_of_digits (s @ [c]) = 10 * nat_of_digits s + digit_val c"
  by (simp add: nat_of_digits_def)

lemma nat_of_digits_str_of_nat: "nat_of_digits (str_of_nat n) = n"
proof (induction n rule: str_of_nat.induct)
  case (1 n)
  show ?case
  proof (cases "n < 10")
    case True
    then show ?thesis
      by (subst str_of_nat.simps) (simp add: nat_of_digits_def digit_val_digit_char)
  next
    case False
    with "1" have "nat_of_digits (str_of_nat (n div 10)) = n div 10"
      by simp
    with False show ?thesis
      by (subst str_of_nat.simps) (simp add: nat_of_digits_snoc digit_val_digit_char)
  qed
qed

lemma dropWhile_rev_decimal:
  assumes "s \<noteq> []" "list_all is_decimal s" "\<And>c. is_decimal c \<Longrightarrow> \<not> P c"
  shows "rev (dropWhile P (rev s)) = s"
proof -
  from assms(1) obtain c cs where rs: "rev s = c # cs"
    by (cases "rev s") auto
  then have "c \<in> set s"
    by (metis list.set_intros(1) set_rev)
  with assms(2) have "is_decimal c"
    by (simp add: list_all_iff)
  with assms(3) have "\<not> P c"
    by blast
  with rs have "dropWhile P (rev s) = rev s"
    by simp
  then show ?thesis
    by simp
qed

lemma strip_decimal:
  assumes "s \<noteq> []" "list_all is_decimal s"
  shows "strip s = s"
proof -
  have r: "rstrip s = s"
    unfolding rstrip_def using assms is_decimal_not_space by (rule dropWhile_rev_decimal)
  from assms obtain c cs where s: "s = c # cs"
    by (cases s) auto
  with assms(2) have "\<not> is_space c"
    by (simp add: is_decimal_not_space)
  with s have "lstrip s = s"
    by (simp add: lstrip_def)
  with r show ?thesis
    by (simp add: strip_def)
qed

lemma rstrip_dot_decimal:
  assumes "s \<noteq> []" "list_all is_decimal s"
  shows "rstrip_dot s = s"
  unfolding rstrip_dot_def using assms is_decimal_not_dot by (rule dropWhile_rev_decimal)

lemma isdigit_decimal:
  assumes "s \<noteq> []" "list_all is_decimal s"
  shows "isdigit s"
  using assms by (auto simp: isdigit_def list_all_iff is_decimal_is_digit)

lemma suffix_rules_agree: "0 \<le> n \<Longrightarrow> suffix_11_13 n = suffix_10_20 n"
proof -
  assume "0 \<le> n"
  have m: "n mod 10 = (n mod 100) mod 10"
    by (simp add: mod_mod_cancel)
  have b: "0 \<le> n mod 100" "n mod 100 < 100"
    by simp_all
  show ?thesis
  proof (cases "10 \<le> n mod 100 \<and> n mod 100 \<le> 20")
    case False
    then show ?thesis
      by (auto simp: suffix_11_13_def suffix_10_20_def)
  next
    case True
    then consider "n mod 100 = 10" | "n mod 100 = 11" | "n mod 100 = 12" | "n mod 100 = 13"
      | "n mod 100 = 14" | "n mod 100 = 15" | "n mod 100 = 16" | "n mod 100 = 17"
      | "n mod 100 = 18" | "n mod 100 = 19" | "n mod 100 = 20"
      by atomize_elim arith
    then show ?thesis
      by cases (simp_all add: suffix_11_13_def suffix_10_20_def last_digit_suffix_def m)
  qed
qed

lemma suffix_10_20_english: "0 \<le> n \<Longrightarrow> suffix_10_20 n = english_suffix n"
proof -
  assume "0 \<le> n"
  have m: "n mod 10 = (n mod 100) mod 10"
    by (simp add: mod_mod_cancel)
  have b: "0 \<le> n mod 100" "n mod 100 < 100"
    by simp_all
  show ?thesis
  proof (cases "10 \<le> n mod 100 \<and> n mod 100 \<le> 20")
    case False
    then show ?thesis
      by (auto simp: english_suffix_def suffix_10_20_def last_digit_suffix_def)
  next
    case True
    then consider "n mod 100 = 10" | "n mod 100 = 11" | "n mod 100 = 12" | "n mod 100 = 13"
      | "n mod 100 = 14" | "n mod 100 = 15" | "n mod 100 = 16" | "n mod 100 = 17"
      | "n mod 100 = 18" | "n mod 100 = 19" | "n mod 100 = 20"
      by atomize_elim arith
    then show ?thesis
      by cases (simp_all add: english_suffix_def suffix_10_20_def last_digit_suffix_def m)
  qed
qed

lemma py_int_py_str: "py_int (py_str (int n)) = Inr (int n)"
  by (simp add: py_int_def py_str_def str_of_nat_nonempty str_of_nat_decimal
      nat_of_digits_str_of_nat)

lemma py_str_nonempty: "py_str (int n) \<noteq> []"
  by (simp add: py_str_def str_of_nat_nonempty)

lemma normal_py_str: "rstrip_dot (strip (py_str (int n))) = py_str (int n)"
  by (simp add: py_str_def strip_decimal rstrip_dot_decimal str_of_nat_nonempty
      str_of_nat_decimal)

lemma isdigit_py_str: "isdigit (py_str (int n))"
  by (simp add: py_str_def isdigit_decimal str_of_nat_nonempty str_of_nat_decimal)

lemma ordinal_home_str:
  "ordinal_home (py_str (int n)) = Inr (py_str (int n) @ english_suffix (int n))"
  by (simp add: ordinal_home_def py_str_nonempty normal_py_str isdigit_py_str py_int_py_str
      suffix_10_20_english)

lemma ordinal_athlete_str:
  "ordinal_athlete (py_str (int n)) = Inr (py_str (int n) @ english_suffix (int n))"
  by (simp add: ordinal_athlete_def py_str_nonempty normal_py_str isdigit_py_str py_int_py_str
      suffix_10_20_english)

section \<open>Claims about the ordinal suffix\<close>

text \<open>
  C8. For every natural number \<open>n\<close>, so for each of 1 to 100, \<open>ordinal\<close> applied to the
  decimal text of \<open>n\<close> returns that text followed by the English suffix: "th" for the
  teens, otherwise "st", "nd", "rd" or "th" by the last digit. A text that is not numeric
  comes back unchanged (\<open>"abc"\<close>, and the empty text), and a trailing period is removed
  before the digit test (\<open>"7."\<close> gives \<open>"7th"\<close>). This holds for the \<open>ordinal\<close> of
  home_builder.py and for the one of mens_team/athlete_builder.py.
\<close>

theorem ordinal_matches_english_rule:
  "ordinal_home (py_str (int n)) = Inr (py_str (int n) @ english_suffix (int n))
   \<and> ordinal_athlete (py_str (int n)) = Inr (py_str (int n) @ english_suffix (int n))
   \<and> ordinal_home ''abc'' = Inr ''abc'' \<and> ordinal_athlete ''abc'' = Inr ''abc''
   \<and> ordinal_home [] = Inr [] \<and> ordinal_athlete [] = Inr []
   \<and> ordinal_home ''7.'' = Inr ''7th'' \<and> ordinal_athlete ''7.'' = Inr ''7th''
   \<and> py_str 1 = ''1'' \<and> py_str 100 = ''100''"
proof -
  have a: "ordinal_home ''abc'' = Inr ''abc''" "ordinal_athlete ''abc'' = Inr ''abc''"
    by code_simp+
  have b: "ordinal_home [] = Inr []" "ordinal_athlete [] = Inr []"
    by code_simp+
  have c: "ordinal_home ''7.'' = Inr ''7th''" "ordinal_athlete ''7.'' = Inr ''7th''"
    by code_simp+
  have d: "py_str 1 = ''1''" "py_str 100 = ''100''"
    by code_simp+
  from a b c d show ?thesis
    by (simp only: ordinal_home_str ordinal_athlete_str simp_thms)
qed

text \<open>
  C10. On every place whose trimmed form, trailing periods removed, passes the digit
  test, the \<open>ordinal\<close> with the teen exception 11 to 13 (csv_to_race_page_html.py) returns
  what the three with the exception 10 to 20 return (home_builder.py, meet_builder.py,
  athlete_builder.py): the two boundaries never give a different suffix.
\<close>

theorem ordinal_teen_boundaries_agree:
  assumes "isdigit (rstrip_dot (strip p))"
  shows "ordinal_csv p = ordinal_home p \<and> ordinal_csv p = ordinal_meet p
    \<and> ordinal_csv p = ordinal_athlete p"
proof -
  from assms have ne: "p \<noteq> []"
    by (auto simp: isdigit_def strip_def lstrip_def rstrip_def rstrip_dot_def)
  have "\<And>n. py_int (rstrip_dot (strip p)) = Inr n \<Longrightarrow> suffix_11_13 n = suffix_10_20 n"
    by (rule suffix_rules_agree) (auto simp: py_int_def split: if_splits)
  with assms ne show ?thesis
    by (auto simp: ordinal_csv_def ordinal_home_def ordinal_meet_def ordinal_athlete_def
        Let_def split: sum.splits)
qed

theorem ordinal_teen_boundaries_agree_witness:
  "isdigit (rstrip_dot (strip '' 12. ''))
   \<and> ordinal_csv '' 12. '' = ordinal_home '' 12. ''
   \<and> ordinal_csv '' 12. '' = ordinal_meet '' 12. ''
   \<and> ordinal_csv '' 12. '' = ordinal_athlete '' 12. ''
   \<and> ordinal_csv '' 12. '' = Inr ''12th''"
proof -
  have h: "isdigit (rstrip_dot (strip '' 12. ''))"
    by code_simp
  have v: "ordinal_csv '' 12. '' = Inr ''12th''"
    by code_simp
  from h v ordinal_teen_boundaries_agree [OF h] show ?thesis
    by blast
qed

section \<open>Facts about sorting\<close>

lemma keyed_Inr:
  "keyed f xs = Inr ks \<Longrightarrow>
     ks = map (\<lambda>x. (key_value f x, x)) xs \<and> list_all (\<lambda>x. f x = Inr (key_value f x)) xs"
proof (induction xs arbitrary: ks)
  case Nil
  then show ?case by simp
next
  case (Cons x xs)
  from Cons.prems obtain k ks' where fx: "f x = Inr k" and r: "keyed f xs = Inr ks'"
    and ks: "ks = (k, x) # ks'"
    by (auto split: sum.splits)
  from fx have kv: "key_value f x = k"
    by (simp add: key_value_def)
  from Cons.IH [OF r] fx kv ks show ?case
    by simp
qed

lemma keyed_total:
  "list_all (\<lambda>x. f x = Inr (key_value f x)) xs \<Longrightarrow>
     keyed f xs = Inr (map (\<lambda>x. (key_value f x, x)) xs)"
  by (induction xs) simp_all

lemma insort_decorated_map:
  "insort_key fst (g x, x) (map (\<lambda>y. (g y, y)) ys) = map (\<lambda>y. (g y, y)) (insort_key g x ys)"
  by (induction ys) auto

lemma sort_key_decorated:
  "sort_key fst (map (\<lambda>y. (g y, y)) xs) = map (\<lambda>y. (g y, y)) (sort_key g xs)"
  by (induction xs) (simp_all add: insort_decorated_map)

lemma py_sorted_Inr:
  assumes "py_sorted f xs = Inr ys"
  shows "ys = sort_key (key_value f) xs" and "list_all (\<lambda>x. f x = Inr (key_value f x)) xs"
proof -
  from assms obtain ks where k: "keyed f xs = Inr ks" and y: "ys = map snd (sort_key fst ks)"
    by (auto simp: py_sorted_def split: sum.splits)
  from keyed_Inr [OF k] have ks: "ks = map (\<lambda>x. (key_value f x, x)) xs"
    and ok: "list_all (\<lambda>x. f x = Inr (key_value f x)) xs"
    by simp_all
  from y ks show "ys = sort_key (key_value f) xs"
    by (simp add: sort_key_decorated comp_def)
  from ok show "list_all (\<lambda>x. f x = Inr (key_value f x)) xs" .
qed

lemma py_sorted_total:
  "list_all (\<lambda>x. f x = Inr (key_value f x)) xs \<Longrightarrow>
     py_sorted f xs = Inr (sort_key (key_value f) xs)"
  by (simp add: py_sorted_def keyed_total sort_key_decorated comp_def)

lemma sorted_last_max:
  "sorted (map g ys) \<Longrightarrow> y \<in> set ys \<Longrightarrow> g y \<le> g (last ys)"
proof (induction ys)
  case Nil
  then show ?case by simp
next
  case (Cons a ys)
  then show ?case
    by (cases ys) auto
qed

lemma last_sort_key_max:
  assumes "xs \<noteq> []"
  shows "last (sort_key g xs) \<in> set xs"
    and "\<And>x. x \<in> set xs \<Longrightarrow> g x \<le> g (last (sort_key g xs))"
proof -
  from assms have ne: "sort_key g xs \<noteq> []"
    by (metis length_0_conv length_sort)
  then have "last (sort_key g xs) \<in> set (sort_key g xs)"
    by (rule last_in_set)
  then show "last (sort_key g xs) \<in> set xs"
    by simp
  fix x assume "x \<in> set xs"
  then have "x \<in> set (sort_key g xs)"
    by simp
  with sorted_sort_key [of g xs] show "g x \<le> g (last (sort_key g xs))"
    by (rule sorted_last_max)
qed

section \<open>Facts about the athlete parser\<close>

lemma classify_row_spec:
  "classify_row d acc =
     (if is_season_row d then (fst acc @ [season_of d], snd acc)
      else if is_race_row d then (fst acc, snd acc @ [race_of d])
      else acc)"
  by (simp add: classify_row_def is_season_row_def is_race_row_def season_of_def race_of_def
      field_def Let_def)

lemma foldl_classify:
  "foldl (\<lambda>acc dr. classify_row dr acc) acc ds =
     (fst acc @ map season_of (filter is_season_row ds),
      snd acc @ map race_of (filter is_race_row ds))"
proof (induction ds arbitrary: acc)
  case Nil
  then show ?case by simp
next
  case (Cons d ds)
  then show ?case
    by (simp add: classify_row_spec is_race_row_def)
qed

lemma classify_rows_spec:
  "classify_rows ds =
     (map season_of (filter is_season_row ds), map race_of (filter is_race_row ds))"
  by (simp add: classify_rows_def foldl_classify)

lemma season_of_classified:
  assumes "s \<in> set (fst (classify_rows ds))"
  shows "isdigit (sr_year s)" and "sr_grade s \<noteq> []"
  using assms by (auto simp: classify_rows_spec season_of_def is_season_row_def)

lemma year_key_value:
  assumes "isdigit (sr_year s)" and "year_key s = Inr k"
  shows "k = year_number s"
  using assms by (auto simp: year_key_def py_int_def year_number_def split: if_splits)

lemma most_recent_is_latest:
  assumes "find_most_recent_grade srs = Inr mrg" and "srs \<noteq> []"
    and "list_all (\<lambda>s. isdigit (sr_year s)) srs"
  shows "\<exists>s\<in>set srs. mrg = Some (sr_grade s)
           \<and> (\<forall>t\<in>set srs. year_key t = Inr (year_number t) \<and> year_number t \<le> year_number s)"
proof -
  from assms(1,2) obtain ys where ys: "py_sorted year_key srs = Inr ys"
    and mrg: "mrg = Some (sr_grade (last ys))"
    by (auto simp: find_most_recent_grade_def split: sum.splits)
  from py_sorted_Inr [OF ys] have sorted: "ys = sort_key (key_value year_key) srs"
    and ok: "list_all (\<lambda>x. year_key x = Inr (key_value year_key x)) srs"
    by simp_all
  have kv: "key_value year_key t = year_number t" if "t \<in> set srs" for t
  proof -
    from that ok have "year_key t = Inr (key_value year_key t)"
      by (simp add: list_all_iff)
    moreover from that assms(3) have "isdigit (sr_year t)"
      by (simp add: list_all_iff)
    ultimately show ?thesis
      using year_key_value by blast
  qed
  let ?s = "last ys"
  from last_sort_key_max [OF assms(2), where g = "key_value year_key"] sorted
  have mem: "?s \<in> set srs"
    and mx: "\<And>t. t \<in> set srs \<Longrightarrow> key_value year_key t \<le> key_value year_key ?s"
    by simp_all
  have "\<forall>t\<in>set srs. year_key t = Inr (year_number t) \<and> year_number t \<le> year_number ?s"
  proof
    fix t assume t: "t \<in> set srs"
    from t ok have "year_key t = Inr (key_value year_key t)"
      by (simp add: list_all_iff)
    with kv [OF t] have 1: "year_key t = Inr (year_number t)"
      by simp
    from mx [OF t] kv [OF t] kv [OF mem] have "year_number t \<le> year_number ?s"
      by simp
    with 1 show "year_key t = Inr (year_number t) \<and> year_number t \<le> year_number ?s"
      by simp
  qed
  with mem mrg show ?thesis
    by blast
qed

lemma spec_backfill_None: "map (spec_backfill None) rs = rs"
  by (induction rs) (simp_all add: spec_backfill_def)

lemma backfill_spec:
  "mrg \<noteq> Some [] \<Longrightarrow> backfill mrg rs = map (spec_backfill mrg) rs"
  by (cases mrg) (auto simp: backfill_def spec_backfill_def spec_backfill_None)

section \<open>Claims about the athlete parser\<close>


text \<open>
  C3. When \<open>parse_athlete_csv\<close> returns an athlete: without season records there is no
  most recent grade; otherwise the most recent grade is the grade of a season record whose
  year is numerically the largest. The races are the classified race rows, where each row
  with a blank grade has taken the most recent grade if there is one, and every row with
  a grade is unchanged. So when all races had a blank grade and there is a most recent
  grade, every race carries it.
\<close>

theorem grade_backfill:
  assumes "parse_athlete_csv rows = Inr a" and "find_header_index rows = Some (i, h)"
  shows "(season_records a = [] \<longrightarrow> most_recent_grade a = None)
     \<and> (season_records a \<noteq> [] \<longrightarrow>
          (\<exists>s\<in>set (season_records a). most_recent_grade a = Some (sr_grade s)
             \<and> (\<forall>t\<in>set (season_records a).
                   year_key t = Inr (year_number t) \<and> year_number t \<le> year_number s)))
     \<and> races a = map (spec_backfill (most_recent_grade a))
                   (snd (classify_rows (athlete_dict_rows i h rows)))
     \<and> (list_all (\<lambda>r. race_grade r = []) (snd (classify_rows (athlete_dict_rows i h rows)))
          \<and> most_recent_grade a = Some g
          \<longrightarrow> list_all (\<lambda>r. race_grade r = g) (races a))"
proof -
  let ?c = "classify_rows (athlete_dict_rows i h rows)"
  from assms have m: "find_most_recent_grade (fst ?c) = Inr (most_recent_grade a)"
    and s: "season_records a = fst ?c"
    and r: "races a = backfill (most_recent_grade a) (snd ?c)"
    by (auto simp: parse_athlete_csv_def Let_def split: sum.splits)
  have dig: "list_all (\<lambda>s. isdigit (sr_year s)) (fst ?c)"
    by (simp add: list_all_iff season_of_classified)
  have 1: "season_records a = [] \<longrightarrow> most_recent_grade a = None"
    using m s by (auto simp: find_most_recent_grade_def)
  have 2: "season_records a \<noteq> [] \<longrightarrow>
          (\<exists>s\<in>set (season_records a). most_recent_grade a = Some (sr_grade s)
             \<and> (\<forall>t\<in>set (season_records a).
                   year_key t = Inr (year_number t) \<and> year_number t \<le> year_number s))"
    using most_recent_is_latest [OF m _ dig] s by simp
  have "most_recent_grade a \<noteq> Some []"
  proof (cases "season_records a = []")
    case True
    with 1 show ?thesis by simp
  next
    case False
    with 2 obtain s where "s \<in> set (fst ?c)" and "most_recent_grade a = Some (sr_grade s)"
      using s by auto
    with season_of_classified(2) [of s] show ?thesis
      by auto
  qed
  with r have 3: "races a = map (spec_backfill (most_recent_grade a)) (snd ?c)"
    by (simp add: backfill_spec)
  have 4: "list_all (\<lambda>r. race_grade r = []) (snd ?c) \<and> most_recent_grade a = Some g
          \<longrightarrow> list_all (\<lambda>r. race_grade r = g) (races a)"
    by (simp add: 3 list_all_iff spec_backfill_def)
  from 1 2 3 4 show ?thesis
    by blast
qed

theorem grade_backfill_witness:
  "parse_athlete_csv athlete_rows = Inr athlete_parsed
   \<and> find_header_index athlete_rows = Some (3, athlete_header)
   \<and> races athlete_parsed =
       map (spec_backfill (most_recent_grade athlete_parsed))
         (snd (classify_rows (athlete_dict_rows 3 athlete_header athlete_rows)))
   \<and> most_recent_grade athlete_parsed = Some ''12''
   \<and> map race_grade (races athlete_parsed) = [''12'', ''10'']
   \<and> map race_grade (snd (classify_rows (athlete_dict_rows 3 athlete_header athlete_rows))) =
       ['''', ''10'']
   \<and> season_records athlete_parsed \<noteq> []
   \<and> (\<exists>s\<in>set (season_records athlete_parsed).
         most_recent_grade athlete_parsed = Some (sr_grade s)
         \<and> (\<forall>t\<in>set (season_records athlete_parsed).
               year_key t = Inr (year_number t) \<and> year_number t \<le> year_number s))"
proof -
  have n: "(if length athlete_rows > 0 \<and> athlete_rows ! 0 \<noteq> []
            then strip (athlete_rows ! 0 ! 0) else []) = ''Pat Runner''"
    by code_simp
  have i: "(if length athlete_rows > 1 \<and> athlete_rows ! 1 \<noteq> []
            then strip (athlete_rows ! 1 ! 0) else []) = ''123''"
    by code_simp
  have h: "find_header_index athlete_rows = Some (3, athlete_header)"
    by code_simp
  have c: "classify_rows (athlete_dict_rows 3 athlete_header athlete_rows) =
       ([\<lparr>sr_year = ''2023'', sr_grade = ''12'', sr_time = ''17:55.6 SR''\<rparr>,
         \<lparr>sr_year = ''2022'', sr_grade = ''11'', sr_time = ''18:40.1''\<rparr>],
        [\<lparr>race_grade = [], race_meet = ''Invitational'', race_url = ''#'',
          race_time = ''18:01.2'', race_place = ''2023''\<rparr>,
         \<lparr>race_grade = ''10'', race_meet = ''Jamboree'', race_url = ''http://y'',
          race_time = ''19:02.0'', race_place = ''7.''\<rparr>])"
    by code_simp
  have m: "find_most_recent_grade
       [\<lparr>sr_year = ''2023'', sr_grade = ''12'', sr_time = ''17:55.6 SR''\<rparr>,
         \<lparr>sr_year = ''2022'', sr_grade = ''11'', sr_time = ''18:40.1''\<rparr>] = Inr (Some ''12'')"
    by code_simp
  have b: "backfill (Some ''12'')
        [\<lparr>race_grade = [], race_meet = ''Invitational'', race_url = ''#'',
          race_time = ''18:01.2'', race_place = ''2023''\<rparr>,
         \<lparr>race_grade = ''10'', race_meet = ''Jamboree'', race_url = ''http://y'',
          race_time = ''19:02.0'', race_place = ''7.''\<rparr>] =
        [\<lparr>race_grade = ''12'', race_meet = ''Invitational'', race_url = ''#'',
          race_time = ''18:01.2'', race_place = ''2023''\<rparr>,
         \<lparr>race_grade = ''10'', race_meet = ''Jamboree'', race_url = ''http://y'',
          race_time = ''19:02.0'', race_place = ''7.''\<rparr>]"
    by code_simp
  have p: "parse_athlete_csv athlete_rows = Inr athlete_parsed"
    by (simp only: parse_athlete_csv_def Let_def n i h c m b option.case prod.case
        sum.case fst_conv snd_conv athlete_parsed_def)
  note t = grade_backfill [OF p h]
  have r: "races athlete_parsed =
       map (spec_backfill (most_recent_grade athlete_parsed))
         (snd (classify_rows (athlete_dict_rows 3 athlete_header athlete_rows)))"
    by (rule t [THEN conjunct2, THEN conjunct2, THEN conjunct1])
  have g: "most_recent_grade athlete_parsed = Some ''12''"
    by (simp add: athlete_parsed_def)
  have v: "map race_grade (races athlete_parsed) = [''12'', ''10'']"
    by (simp add: athlete_parsed_def)
  have o: "map race_grade (snd (classify_rows (athlete_dict_rows 3 athlete_header athlete_rows))) =
       ['''', ''10'']"
    by code_simp
  have ne: "season_records athlete_parsed \<noteq> []"
    by (simp add: athlete_parsed_def)
  from t [THEN conjunct2, THEN conjunct1] ne
  have l: "\<exists>s\<in>set (season_records athlete_parsed).
         most_recent_grade athlete_parsed = Some (sr_grade s)
         \<and> (\<forall>t\<in>set (season_records athlete_parsed).
               year_key t = Inr (year_number t) \<and> year_number t \<le> year_number s)"
    by (rule mp)
  show ?thesis
    by (intro conjI) (rule p h r g v o ne l)+
qed

section \<open>Facts about times\<close>








lemma split_on_no_sep: "sep \<notin> set s \<Longrightarrow> split_on sep s = [s]"
  by (induction s) auto


section \<open>Claim about times\<close>


section \<open>Facts about the sort by place\<close>

lemma place_key_value:
  "place_key r = Inr k \<Longrightarrow>
     k = (if isdigit (place_text r) then int (nat_of_digits (place_text r)) else 999999)"
  by (auto simp: place_key_def place_text_def py_int_def Let_def split: if_splits)

lemma sorted_nth_le:
  "sorted (map g ys) \<Longrightarrow> i < j \<Longrightarrow> j < length ys \<Longrightarrow> g (ys ! i) \<le> g (ys ! j)"
  using sorted_nth_mono [of "map g ys" i j] by simp

lemma place_sort_returns:
  assumes "list_all (\<lambda>r. \<not> isdigit (place_text r) \<or> list_all is_decimal (place_text r)) rows"
  shows "py_sorted place_key rows = Inr (sort_key (key_value place_key) rows)"
proof (rule py_sorted_total)
  have "place_key r = Inr (key_value place_key r)"
    if "\<not> isdigit (place_text r) \<or> list_all is_decimal (place_text r)" for r
    using that
    by (auto simp: place_key_def key_value_def place_text_def py_int_def isdigit_def Let_def)
  with assms show "list_all (\<lambda>x. place_key x = Inr (key_value place_key x)) rows"
    by (simp add: list_all_iff)
qed

lemma place_key_alt:
  "place_key r = (if isdigit (place_text r) then py_int (place_text r) else Inr 999999)"
  by (simp add: place_key_def place_text_def Let_def)

lemma key_value_Inr: "f x = Inr k \<Longrightarrow> key_value f x = k"
  by (simp add: key_value_def)

lemma py_int_million: "py_int ''1000000'' = Inr 1000000"
  by (simp add: py_int_def is_decimal_def nat_of_digits_def digit_val_def)


section \<open>Claim about the sort by place\<close>

text \<open>
  C5, as the claim states it, fails: a row whose place is not numeric gets the key 999999,
  so it comes before a numeric row whose place is above 999999. Here the row "abc" stays
  in front of the row "1000000".
\<close>

theorem place_sort_counterexample:
  "py_sorted place_key [[(''Place'', ''abc'')], [(''Place'', ''1000000'')]] =
     Inr [[(''Place'', ''abc'')], [(''Place'', ''1000000'')]]
   \<and> \<not> isdigit (place_text [(''Place'', ''abc'')])
   \<and> isdigit (place_text [(''Place'', ''1000000'')])"
proof -
  have t1: "place_text [(''Place'', ''abc'')] = ''abc''"
    by code_simp
  have t2: "place_text [(''Place'', ''1000000'')] = ''1000000''"
    by code_simp
  have d1: "\<not> isdigit ''abc''"
    by code_simp
  have d2: "isdigit ''1000000''"
    by code_simp
  have k1: "place_key [(''Place'', ''abc'')] = Inr 999999"
    by (simp only: place_key_alt t1 d1 if_False)
  have k2: "place_key [(''Place'', ''1000000'')] = Inr 1000000"
    by (simp only: place_key_alt t2 d2 if_True py_int_million)
  have s: "py_sorted place_key [[(''Place'', ''abc'')], [(''Place'', ''1000000'')]] =
     Inr [[(''Place'', ''abc'')], [(''Place'', ''1000000'')]]"
    by (simp add: py_sorted_def k1 k2)
  from s d1 d2 show ?thesis
    by (simp only: t1 t2 simp_thms)
qed

text \<open>
  C5, amended. Whenever the sort of the rows by \<open>place_key\<close> returns, its result holds the
  same rows in ascending order of their keys, rows of equal key in their original order.
  The key of a row is the number its place denotes when the place, trimmed and without
  trailing periods, passes the digit test, and the sentinel 999999 otherwise. The rows
  whose place is not numeric keep their relative order; they come after every numeric row
  whose place is below 999999 and before every numeric row whose place is above it. For
  the places "3", "1.", "abc", "2" the sorted order is "1.", "2", "3", "abc".
\<close>

theorem place_sort_stable:
  assumes "py_sorted place_key rows = Inr out"
  shows "mset out = mset rows
     \<and> sorted (map (key_value place_key) out)
     \<and> (\<forall>k. filter (\<lambda>r. key_value place_key r = k) out
             = filter (\<lambda>r. key_value place_key r = k) rows)
     \<and> (\<forall>r\<in>set rows. key_value place_key r =
            (if isdigit (place_text r) then int (nat_of_digits (place_text r)) else 999999))
     \<and> filter (\<lambda>r. \<not> isdigit (place_text r)) out = filter (\<lambda>r. \<not> isdigit (place_text r)) rows
     \<and> (\<forall>i j. i < length out \<and> j < length out \<and> \<not> isdigit (place_text (out ! i))
            \<and> isdigit (place_text (out ! j)) \<and> key_value place_key (out ! j) < 999999
            \<longrightarrow> j < i)
     \<and> (\<forall>i j. i < length out \<and> j < length out \<and> \<not> isdigit (place_text (out ! i))
            \<and> isdigit (place_text (out ! j)) \<and> 999999 < key_value place_key (out ! j)
            \<longrightarrow> i < j)"
proof -
  let ?k = "key_value place_key"
  from py_sorted_Inr [OF assms] have out: "out = sort_key ?k rows"
    and ok: "list_all (\<lambda>r. place_key r = Inr (?k r)) rows"
    by simp_all
  have 1: "mset out = mset rows"
    by (simp add: out)
  have 2: "sorted (map ?k out)"
    by (simp add: out)
  have 3: "\<forall>k. filter (\<lambda>r. ?k r = k) out = filter (\<lambda>r. ?k r = k) rows"
    by (simp add: out sort_key_stable)
  have kv: "?k r = (if isdigit (place_text r) then int (nat_of_digits (place_text r)) else 999999)"
    if "r \<in> set rows" for r
  proof -
    from that ok have "place_key r = Inr (?k r)"
      by (simp add: list_all_iff)
    then show ?thesis
      by (rule place_key_value)
  qed
  then have 4: "\<forall>r\<in>set rows. ?k r =
            (if isdigit (place_text r) then int (nat_of_digits (place_text r)) else 999999)"
    by blast
  have so: "set out = set rows"
    by (simp add: out)
  have eq: "filter (\<lambda>r. \<not> isdigit (place_text r)) xs
      = filter (\<lambda>r. \<not> isdigit (place_text r)) (filter (\<lambda>r. ?k r = 999999) xs)"
    if "set xs \<subseteq> set rows" for xs
  proof -
    have "\<And>r. r \<in> set xs \<Longrightarrow> \<not> isdigit (place_text r) \<Longrightarrow> ?k r = 999999"
      using kv that by auto
    then show ?thesis
      by (auto intro: filter_cong)
  qed
  have 5: "filter (\<lambda>r. \<not> isdigit (place_text r)) out = filter (\<lambda>r. \<not> isdigit (place_text r)) rows"
  proof -
    have "filter (\<lambda>r. \<not> isdigit (place_text r)) out
        = filter (\<lambda>r. \<not> isdigit (place_text r)) (filter (\<lambda>r. ?k r = 999999) out)"
      by (rule eq) (simp add: so)
    also have "\<dots> = filter (\<lambda>r. \<not> isdigit (place_text r)) (filter (\<lambda>r. ?k r = 999999) rows)"
      using 3 by simp
    also have "\<dots> = filter (\<lambda>r. \<not> isdigit (place_text r)) rows"
      by (rule eq [symmetric]) simp
    finally show ?thesis .
  qed
  have sentinel: "?k (out ! i) = 999999"
    if "i < length out" and "\<not> isdigit (place_text (out ! i))" for i
  proof -
    from that(1) have "out ! i \<in> set rows"
      using so nth_mem by blast
    with that(2) kv show ?thesis
      by simp
  qed
  have 6: "\<forall>i j. i < length out \<and> j < length out \<and> \<not> isdigit (place_text (out ! i))
            \<and> isdigit (place_text (out ! j)) \<and> ?k (out ! j) < 999999
            \<longrightarrow> j < i"
  proof (intro allI impI)
    fix i j
    assume a: "i < length out \<and> j < length out \<and> \<not> isdigit (place_text (out ! i))
            \<and> isdigit (place_text (out ! j)) \<and> ?k (out ! j) < 999999"
    with sentinel have ki: "?k (out ! i) = 999999"
      by blast
    show "j < i"
    proof (rule ccontr)
      assume "\<not> j < i"
      with a have "i < j"
        by (cases "i = j") auto
      with 2 a have "?k (out ! i) \<le> ?k (out ! j)"
        by (simp add: sorted_nth_le)
      with ki a show False
        by simp
    qed
  qed
  have 7: "\<forall>i j. i < length out \<and> j < length out \<and> \<not> isdigit (place_text (out ! i))
            \<and> isdigit (place_text (out ! j)) \<and> 999999 < ?k (out ! j)
            \<longrightarrow> i < j"
  proof (intro allI impI)
    fix i j
    assume a: "i < length out \<and> j < length out \<and> \<not> isdigit (place_text (out ! i))
            \<and> isdigit (place_text (out ! j)) \<and> 999999 < ?k (out ! j)"
    with sentinel have ki: "?k (out ! i) = 999999"
      by blast
    show "i < j"
    proof (rule ccontr)
      assume "\<not> i < j"
      with a have "j < i"
        by (cases "i = j") auto
      with 2 a have "?k (out ! j) \<le> ?k (out ! i)"
        by (simp add: sorted_nth_le)
      with ki a show False
        by simp
    qed
  qed
  from 1 2 3 4 5 6 7 show ?thesis
    by blast
qed

theorem place_sort_stable_witness:
  "py_sorted place_key
      [[(''Place'', ''3'')], [(''Place'', ''1.'')], [(''Place'', ''abc'')], [(''Place'', ''2'')]] =
     Inr [[(''Place'', ''1.'')], [(''Place'', ''2'')], [(''Place'', ''3'')], [(''Place'', ''abc'')]]
   \<and> mset [[(''Place'', ''1.'')], [(''Place'', ''2'')], [(''Place'', ''3'')], [(''Place'', ''abc'')]] =
       mset [[(''Place'', ''3'')], [(''Place'', ''1.'')], [(''Place'', ''abc'')], [(''Place'', ''2'')]]
   \<and> sorted (map (key_value place_key)
        [[(''Place'', ''1.'')], [(''Place'', ''2'')], [(''Place'', ''3'')], [(''Place'', ''abc'')]])
   \<and> filter (\<lambda>r. \<not> isdigit (place_text r))
        [[(''Place'', ''1.'')], [(''Place'', ''2'')], [(''Place'', ''3'')], [(''Place'', ''abc'')]] =
       filter (\<lambda>r. \<not> isdigit (place_text r))
        [[(''Place'', ''3'')], [(''Place'', ''1.'')], [(''Place'', ''abc'')], [(''Place'', ''2'')]]
   \<and> \<not> isdigit (place_text [(''Place'', ''abc'')])
   \<and> isdigit (place_text [(''Place'', ''1.'')])
   \<and> key_value place_key [(''Place'', ''1.'')] = 1"
proof -
  have k1: "place_key [(''Place'', ''3'')] = Inr 3"
    by code_simp
  have k2: "place_key [(''Place'', ''1.'')] = Inr 1"
    by code_simp
  have k3: "place_key [(''Place'', ''abc'')] = Inr 999999"
    by code_simp
  have k4: "place_key [(''Place'', ''2'')] = Inr 2"
    by code_simp
  have s: "py_sorted place_key
      [[(''Place'', ''3'')], [(''Place'', ''1.'')], [(''Place'', ''abc'')], [(''Place'', ''2'')]] =
     Inr [[(''Place'', ''1.'')], [(''Place'', ''2'')], [(''Place'', ''3'')], [(''Place'', ''abc'')]]"
    by (simp add: py_sorted_def k1 k2 k3 k4)
  note t = place_sort_stable [OF s]
  have a: "\<not> isdigit (place_text [(''Place'', ''abc'')])"
    by code_simp
  have b: "isdigit (place_text [(''Place'', ''1.'')])"
    by code_simp
  have c: "key_value place_key [(''Place'', ''1.'')] = 1"
    by (simp add: key_value_def k2)
  show ?thesis
    by (intro conjI)
      (rule s t [THEN conjunct1] t [THEN conjunct2, THEN conjunct1]
        t [THEN conjunct2, THEN conjunct2, THEN conjunct2, THEN conjunct2, THEN conjunct1]
        a b c)+
qed

section \<open>Facts about summaries\<close>

lemma words_from_solid:
  "list_all (\<lambda>c. \<not> is_space c) w \<Longrightarrow> list_all solid_word (words_from w cs)"
proof (induction cs arbitrary: w)
  case Nil
  then show ?case
    by (simp add: solid_word_def)
next
  case (Cons c cs)
  then show ?case
    by (simp add: solid_word_def)
qed

lemma split_ws_solid: "list_all solid_word (split_ws s)"
  by (simp add: split_ws_def words_from_solid)

lemma split_on_append:
  "sep \<notin> set x \<Longrightarrow> split_on sep (x @ sep # rest) = x # split_on sep rest"
  by (induction x) auto

lemma solid_no_blank: "solid_word w \<Longrightarrow> CHR '' '' \<notin> set w"
  by (auto simp: solid_word_def list_all_iff is_space_def)

lemma split_on_join:
  "ws \<noteq> [] \<Longrightarrow> list_all solid_word ws \<Longrightarrow> split_on CHR '' '' (join '' '' ws) = ws"
proof (induction "'' ''" ws rule: join.induct)
  case 1
  then show ?case by simp
next
  case (2 x)
  then show ?case
    by (simp add: split_on_no_sep solid_no_blank)
next
  case (3 x y ys)
  then show ?case
    by (simp add: split_on_append solid_no_blank)
qed

lemma strip_id:
  assumes "s = [] \<or> (\<not> is_space (hd s) \<and> \<not> is_space (last s))"
  shows "strip s = s"
proof (cases s)
  case Nil
  then show ?thesis
    by (simp add: strip_def lstrip_def rstrip_def)
next
  case (Cons c cs)
  with assms have h: "\<not> is_space c" and l: "\<not> is_space (last s)"
    by simp_all
  from Cons obtain d ds where r: "rev s = d # ds"
    by (cases "rev s") auto
  then have "d = last s"
    by (metis last_rev list.sel(1) rev_rev_ident)
  with l have "dropWhile is_space (d # ds) = d # ds"
    by simp
  then have "dropWhile is_space (rev s) = rev s"
    by (simp only: r)
  then have "rstrip s = s"
    by (simp add: rstrip_def)
  with h Cons show ?thesis
    by (simp add: strip_def lstrip_def)
qed

lemma join_ends:
  assumes "ws \<noteq> []" "list_all solid_word ws"
  shows "join '' '' ws \<noteq> [] \<and> hd (join '' '' ws) = hd (hd ws)
     \<and> last (join '' '' ws) = last (last ws)"
  using assms
proof (induction "'' ''" ws rule: join.induct)
  case 1
  then show ?case by simp
next
  case (2 x)
  then show ?case
    by (simp add: solid_word_def)
next
  case (3 x y ys)
  then show ?case
    by (auto simp: solid_word_def)
qed

lemma strip_join: "list_all solid_word ws \<Longrightarrow> strip (join '' '' ws) = join '' '' ws"
proof (cases ws)
  case Nil
  then show ?thesis
    by (simp add: strip_def lstrip_def rstrip_def)
next
  case (Cons w ws')
  assume a: "list_all solid_word ws"
  with Cons have ne: "ws \<noteq> []"
    by simp
  from join_ends [OF ne a] have e: "hd (join '' '' ws) = hd (hd ws)"
    "last (join '' '' ws) = last (last ws)"
    by simp_all
  from a ne have "solid_word (hd ws)" "solid_word (last ws)"
    by (auto simp: list_all_iff)
  then have "\<not> is_space (hd (hd ws))" "\<not> is_space (last (last ws))"
    by (auto simp: solid_word_def list_all_iff)
  with e show ?thesis
    by (simp add: strip_id)
qed

lemma strip_html_collapsed:
  "strip_html u t = (if t = [] then [] else join '' '' (split_ws (strip_tags (u t))))"
  by (simp add: strip_html_def strip_join split_ws_solid)

section \<open>Claim about summaries\<close>

text \<open>
  C9, as the claim states it, fails for \<open>strip_html_tags\<close> of csv_to_race_page_html.py:
  it strips the tags first and decodes the entities afterwards, so markup written with
  entities stays in the text, while \<open>strip_html\<close> removes it.
\<close>

theorem summary_unescape_order_counterexample:
  "strip_html_tags unescape_basic ''&lt;b&gt;bold&lt;/b&gt;'' = ''<b>bold</b>''
   \<and> strip_html unescape_basic ''&lt;b&gt;bold&lt;/b&gt;'' = ''bold''"
proof -
  have a: "strip_html_tags unescape_basic ''&lt;b&gt;bold&lt;/b&gt;'' = ''<b>bold</b>''"
    by code_simp
  have b: "strip_html unescape_basic ''&lt;b&gt;bold&lt;/b&gt;'' = ''bold''"
    by code_simp
  from a b show ?thesis
    by (rule conjI)
qed

text \<open>
  C9, amended. \<open>strip_html\<close> (home_builder.py, meet_builder.py) decodes the entities,
  then strips the tags, then joins the words of the text with single spaces: the result
  has no white space at either end, and cut at its spaces it gives back exactly the words,
  each of them without white space and not empty. \<open>strip_html_tags\<close>
  (csv_to_race_page_html.py) turns the tags of the \<open>br\<close> family into line breaks, strips
  the other tags, decodes the entities only then, and trims the ends; line breaks inside
  the text stay.
\<close>

theorem summary_plain_text:
  "strip_html u t = (if t = [] then [] else join '' '' (split_ws (strip_tags (u t))))
   \<and> list_all solid_word (split_ws x)
   \<and> (split_ws x \<noteq> [] \<longrightarrow> split_on CHR '' '' (join '' '' (split_ws x)) = split_ws x)
   \<and> strip (join '' '' (split_ws x)) = join '' '' (split_ws x)
   \<and> strip_html_tags u s = strip (u (strip_tags (br_to_newline s)))
   \<and> br_to_newline ''a<br>b<BR/>c< br />d'' =
       [CHR ''a'', CHR 0x0A, CHR ''b'', CHR 0x0A, CHR ''c'', CHR 0x0A, CHR ''d'']"
proof -
  have 1: "strip_html u t = (if t = [] then [] else join '' '' (split_ws (strip_tags (u t))))"
    by (rule strip_html_collapsed)
  have 2: "list_all solid_word (split_ws x)"
    by (rule split_ws_solid)
  have 3: "split_ws x \<noteq> [] \<longrightarrow> split_on CHR '' '' (join '' '' (split_ws x)) = split_ws x"
    by (simp add: split_on_join split_ws_solid)
  have 4: "strip (join '' '' (split_ws x)) = join '' '' (split_ws x)"
    by (simp add: strip_join split_ws_solid)
  have 5: "strip_html_tags u s = strip (u (strip_tags (br_to_newline s)))"
    by (simp add: strip_html_tags_def)
  have 6: "br_to_newline ''a<br>b<BR/>c< br />d'' =
       [CHR ''a'', CHR 0x0A, CHR ''b'', CHR 0x0A, CHR ''c'', CHR 0x0A, CHR ''d'']"
    by code_simp
  show ?thesis
    by (intro conjI) (rule 1 2 3 4 5 6)+
qed

theorem summary_plain_text_witness:
  "split_ws ''  A  fine day '' \<noteq> []
   \<and> split_on CHR '' '' (join '' '' (split_ws ''  A  fine day '')) = split_ws ''  A  fine day ''
   \<and> split_ws ''  A  fine day '' = [''A'', ''fine'', ''day'']
   \<and> strip_html unescape_basic ''<p>A  fine &amp; &lt;i&gt;dry&lt;/i&gt; day</p> '' = ''A fine & dry day''
   \<and> strip_html_tags unescape_basic ''One<br/>two &amp; &lt;i&gt;3&lt;/i&gt; '' =
       ''One'' @ [CHR 0x0A] @ ''two & <i>3</i>''"
proof -
  have h: "split_ws ''  A  fine day '' \<noteq> []"
    by code_simp
  have v: "split_ws ''  A  fine day '' = [''A'', ''fine'', ''day'']"
    by code_simp
  have a: "strip_html unescape_basic ''<p>A  fine &amp; &lt;i&gt;dry&lt;/i&gt; day</p> '' = ''A fine & dry day''"
    by code_simp
  have b: "strip_html_tags unescape_basic ''One<br/>two &amp; &lt;i&gt;3&lt;/i&gt; '' =
       ''One'' @ [CHR 0x0A] @ ''two & <i>3</i>''"
    by code_simp
  note t = summary_plain_text [of unescape_basic "[]" "''  A  fine day ''" "[]"]
  have c: "split_on CHR '' '' (join '' '' (split_ws ''  A  fine day '')) = split_ws ''  A  fine day ''"
    using t [THEN conjunct2, THEN conjunct2, THEN conjunct1] h by (rule mp)
  show ?thesis
    by (intro conjI) (rule h c v a b)+
qed

section \<open>Facts about the meet parsers\<close>






lemma length_indiv_dicts_of: "length (indiv_dicts_of rows) = length rows - 1"
  by (simp add: indiv_dicts_of_def Let_def)

lemma meet_page_of_Inr:
  assumes "meet_page_of reader u lines = Inr page"
  shows "6 \<le> length lines" and "2 \<le> length (indiv_rows_of reader lines)"
    and "mp_individuals page = indiv_dicts_of (indiv_rows_of reader lines)"
    and "(if skyline_filter (mp_individuals page) = [] then Inr []
          else py_sorted place_key (skyline_filter (mp_individuals page))) = Inr (mp_skyline page)"
    and "page_rows (mp_skyline page) = Inr (mp_rows page)"
  using assms
  by (auto simp: meet_page_of_def Let_def split: if_splits sum.splits)

lemma meet_page_skyline:
  assumes "meet_page_of reader u lines = Inr page"
  shows "mset (mp_skyline page) = mset (skyline_filter (mp_individuals page))"
proof (cases "skyline_filter (mp_individuals page) = []")
  case True
  with meet_page_of_Inr(4) [OF assms] show ?thesis
    by simp
next
  case False
  with meet_page_of_Inr(4) [OF assms]
  have "py_sorted place_key (skyline_filter (mp_individuals page)) = Inr (mp_skyline page)"
    by simp
  from py_sorted_Inr(1) [OF this] show ?thesis
    by simp
qed

lemma meet_page_no_skyline:
  assumes "6 \<le> length lines"
    and "find_line_index lines ''Place,Team,Score'' \<noteq> None"
    and "find_line_index lines ''Place,Grade,Name,'' \<noteq> None"
    and "2 \<le> length (indiv_rows_of reader lines)"
    and "skyline_filter (indiv_dicts_of (indiv_rows_of reader lines)) = []"
  shows "meet_page_of reader u lines =
     Inr \<lparr>mp_name = strip (lines ! 0), mp_date = strip (lines ! 1), mp_link = strip (lines ! 2),
          mp_summary = strip_html u (strip (lines ! 3)),
          mp_individuals = indiv_dicts_of (indiv_rows_of reader lines),
          mp_skyline = [], mp_rows = []\<rparr>"
  using assms by (simp add: meet_page_of_def Let_def)

lemma meet_page_no_data:
  assumes "6 \<le> length lines"
    and "find_line_index lines ''Place,Team,Score'' \<noteq> None"
    and "find_line_index lines ''Place,Grade,Name,'' \<noteq> None"
    and "length (indiv_rows_of reader lines) < 2"
  shows "meet_page_of reader u lines = Inl (Skip NoDataRows)"
  using assms by (simp add: meet_page_of_def)







lemma parse_custom_Inr:
  assumes "parse_custom_meet_csv u rows = Inr m"
  shows "individual_results m =
     individual_loop (skip_individual_header (snd (team_loop (drop 4 rows))))"
  using assms
  by (auto simp: parse_custom_meet_csv_def Let_def split: if_splits sum.splits)

lemma cell0_nonempty: "row \<noteq> [] \<Longrightarrow> cell0 row = Inr (hd row)"
  by (cases row) (simp_all add: cell0_def)

lemma parse_custom_returns:
  assumes "5 \<le> length rows" and "list_all (\<lambda>r. r \<noteq> []) (take 4 rows)"
  shows "\<exists>m. parse_custom_meet_csv u rows = Inr m
     \<and> individual_results m =
         individual_loop (skip_individual_header (snd (team_loop (drop 4 rows))))"
proof -
  have "rows ! k \<noteq> []" if "k < 4" for k
  proof -
    from that assms(1) have "k < length (take 4 rows)"
      by simp
    with assms(2) have "take 4 rows ! k \<noteq> []"
      by (simp add: list_all_length)
    with that show ?thesis
      by simp
  qed
  then have "rows ! 0 \<noteq> []" "rows ! 1 \<noteq> []" "rows ! 2 \<noteq> []" "rows ! 3 \<noteq> []"
    by simp_all
  with assms(1) show ?thesis
    by (simp add: parse_custom_meet_csv_def Let_def cell0_nonempty)
qed

lemma meet_page_eval:
  assumes "6 \<le> length lines"
    and "find_line_index lines ''Place,Team,Score'' \<noteq> None"
    and "find_line_index lines ''Place,Grade,Name,'' \<noteq> None"
    and "indiv_rows_of reader lines = rows" and "2 \<le> length rows"
    and "indiv_dicts_of rows = ds" and "skyline_filter ds = sk" and "sk \<noteq> []"
    and "py_sorted place_key sk = Inr sorted_sk" and "page_rows sorted_sk = Inr table"
  shows "meet_page_of reader u lines =
     Inr \<lparr>mp_name = strip (lines ! 0), mp_date = strip (lines ! 1), mp_link = strip (lines ! 2),
          mp_summary = strip_html u (strip (lines ! 3)),
          mp_individuals = ds, mp_skyline = sorted_sk, mp_rows = table\<rparr>"
  using assms by (simp add: meet_page_of_def Let_def)

lemma meet_lines_rows:
  "indiv_rows_of simple_reader meet_lines =
     [meet_table_header,
      [''3'', ''11'', ''Al'', ''http://a'', ''17:01'', ''Ann Arbor Skyline''],
      [''1.'', ''12'', ''Bo'', ''http://b'', ''16:02'', ''Ann Arbor Skyline''],
      [''2'', ''10'', ''Cy'', ''http://c'', ''16:30'', ''Saline''],
      [''abc'', ''9'', ''Di'']]"
  by code_simp

lemma meet_lines_found:
  "6 \<le> length meet_lines" "find_line_index meet_lines ''Place,Team,Score'' \<noteq> None"
  "find_line_index meet_lines ''Place,Grade,Name,'' \<noteq> None"
  by code_simp+

lemma meet_lines_dicts:
  "indiv_dicts_of
     [meet_table_header,
      [''3'', ''11'', ''Al'', ''http://a'', ''17:01'', ''Ann Arbor Skyline''],
      [''1.'', ''12'', ''Bo'', ''http://b'', ''16:02'', ''Ann Arbor Skyline''],
      [''2'', ''10'', ''Cy'', ''http://c'', ''16:30'', ''Saline''],
      [''abc'', ''9'', ''Di'']] = [row_al, row_bo, row_cy, row_di]"
  by code_simp

lemma meet_lines_skyline: "skyline_filter [row_al, row_bo, row_cy, row_di] = [row_al, row_bo]"
  by code_simp

lemma meet_lines_sorted: "py_sorted place_key [row_al, row_bo] = Inr [row_bo, row_al]"
proof -
  have k1: "place_key row_al = Inr 3"
    by code_simp
  have k2: "place_key row_bo = Inr 1"
    by code_simp
  show ?thesis
    by (simp add: py_sorted_def k1 k2)
qed

lemma meet_lines_table: "page_rows [row_bo, row_al] = Inr (mp_rows meet_page_sample)"
  by code_simp

lemma meet_lines_meta:
  "strip (meet_lines ! 0) = ''Season Opener''" "strip (meet_lines ! 1) = ''Sep 1 2024''"
  "strip (meet_lines ! 2) = ''http://x/meet/12''"
  "strip_html unescape_basic (strip (meet_lines ! 3)) = ''A fine day''"
  by code_simp+

lemma meet_page_of_sample:
  "meet_page_of simple_reader unescape_basic meet_lines = Inr meet_page_sample"
proof -
  have ne: "[row_al, row_bo] \<noteq> []"
    by simp
  have 2: "2 \<le> length [meet_table_header,
      [''3'', ''11'', ''Al'', ''http://a'', ''17:01'', ''Ann Arbor Skyline''],
      [''1.'', ''12'', ''Bo'', ''http://b'', ''16:02'', ''Ann Arbor Skyline''],
      [''2'', ''10'', ''Cy'', ''http://c'', ''16:30'', ''Saline''],
      [''abc'', ''9'', ''Di'']]"
    by simp
  have "meet_page_of simple_reader unescape_basic meet_lines =
     Inr \<lparr>mp_name = strip (meet_lines ! 0), mp_date = strip (meet_lines ! 1),
          mp_link = strip (meet_lines ! 2),
          mp_summary = strip_html unescape_basic (strip (meet_lines ! 3)),
          mp_individuals = [row_al, row_bo, row_cy, row_di], mp_skyline = [row_bo, row_al],
          mp_rows = mp_rows meet_page_sample\<rparr>"
    by (rule meet_page_eval [OF meet_lines_found meet_lines_rows 2 meet_lines_dicts
          meet_lines_skyline ne meet_lines_sorted meet_lines_table])
  also have "\<dots> = Inr meet_page_sample"
    unfolding meet_lines_meta by (simp add: meet_page_sample_def)
  finally show ?thesis .
qed

lemma no_rows_facts:
  "6 \<le> length meet_lines_no_rows"
  "find_line_index meet_lines_no_rows ''Place,Team,Score'' \<noteq> None"
  "find_line_index meet_lines_no_rows ''Place,Grade,Name,'' \<noteq> None"
  "length (indiv_rows_of simple_reader meet_lines_no_rows) < 2"
  by code_simp+

lemma other_team_facts:
  "6 \<le> length meet_lines_other_team"
  "find_line_index meet_lines_other_team ''Place,Team,Score'' \<noteq> None"
  "find_line_index meet_lines_other_team ''Place,Grade,Name,'' \<noteq> None"
  "2 \<le> length (indiv_rows_of simple_reader meet_lines_other_team)"
  "skyline_filter (indiv_dicts_of (indiv_rows_of simple_reader meet_lines_other_team)) = []"
  by code_simp+

lemma custom_no_individuals_parsed:
  "parse_custom_meet_csv unescape_basic custom_rows_no_individuals =
     Inr \<lparr>meet_name = ''Season Opener'', meet_date = ''Sep 1 2024'',
          meet_url = ''http://x/meet/12'', summary_text = ''A  fine day'',
          team_results = [\<lparr>tr_place = ''1'', tr_team = ''Ann Arbor Skyline'', tr_score = ''20''\<rparr>],
          individual_results = [], meet_id = Some ''12''\<rparr>"
  by code_simp


lemma runners_samples:
  "skyline_of [result_bo, result_cy] = [result_bo]" "runners_of [result_cy] = [result_cy]"
  "skyline_of [result_cy] = []" "strip (ir_team result_bo) \<noteq> SKYLINE_TEAM_NAME"
  by code_simp+


lemma custom_short_facts:
  "5 \<le> length custom_rows_short" "list_all (\<lambda>r. r \<noteq> []) (take 4 custom_rows_short)"
  "5 \<le> length custom_rows_no_individuals"
  "list_all (\<lambda>r. r \<noteq> []) (take 4 custom_rows_no_individuals)"
  "distinct meet_table_header"
  by code_simp+

section \<open>Claims about the meet parsers\<close>

text \<open>
  C2, as the claim states it, fails for \<open>parse_custom_meet_csv\<close>: it has no test on the
  number of individual results, and a file that ends after its team table is parsed with
  an empty list of them.
\<close>

theorem custom_parse_without_individuals_counterexample:
  "parse_custom_meet_csv unescape_basic custom_rows_no_individuals =
     Inr \<lparr>meet_name = ''Season Opener'', meet_date = ''Sep 1 2024'',
          meet_url = ''http://x/meet/12'', summary_text = ''A  fine day'',
          team_results = [\<lparr>tr_place = ''1'', tr_team = ''Ann Arbor Skyline'', tr_score = ''20''\<rparr>],
          individual_results = [], meet_id = Some ''12''\<rparr>"
  by (rule custom_no_individuals_parsed)

text \<open>
  C2, amended. In meet_builder.py a file whose headers are found but whose individual
  block has fewer than two rows, the header row included, is skipped for having no data
  rows, so every page is built from at least one individual row. \<open>parse_custom_meet_csv\<close>
  makes no such test: its individual results are the rows of 8 or more cells after the
  team table, however few, and it returns whenever the file has five rows and its first
  four rows are not empty.
\<close>

theorem data_rows_by_dialect:
  "(meet_page_of reader u lines = Inr page \<longrightarrow> 1 \<le> length (mp_individuals page))
   \<and> (6 \<le> length lines \<and> find_line_index lines ''Place,Team,Score'' \<noteq> None
        \<and> find_line_index lines ''Place,Grade,Name,'' \<noteq> None
        \<and> length (indiv_rows_of reader lines) < 2
      \<longrightarrow> meet_page_of reader u lines = Inl (Skip NoDataRows))
   \<and> (parse_custom_meet_csv u rows = Inr m \<longrightarrow>
        individual_results m =
          individual_loop (skip_individual_header (snd (team_loop (drop 4 rows)))))
   \<and> (5 \<le> length rows \<and> list_all (\<lambda>r. r \<noteq> []) (take 4 rows) \<longrightarrow>
        (\<exists>m'. parse_custom_meet_csv u rows = Inr m'
           \<and> individual_results m' =
               individual_loop (skip_individual_header (snd (team_loop (drop 4 rows))))))"
proof -
  have 1: "meet_page_of reader u lines = Inr page \<longrightarrow> 1 \<le> length (mp_individuals page)"
  proof
    assume a: "meet_page_of reader u lines = Inr page"
    from meet_page_of_Inr(2,3) [OF a] show "1 \<le> length (mp_individuals page)"
      by (simp add: length_indiv_dicts_of)
  qed
  have 2: "6 \<le> length lines \<and> find_line_index lines ''Place,Team,Score'' \<noteq> None
        \<and> find_line_index lines ''Place,Grade,Name,'' \<noteq> None
        \<and> length (indiv_rows_of reader lines) < 2
      \<longrightarrow> meet_page_of reader u lines = Inl (Skip NoDataRows)"
    using meet_page_no_data by blast
  have 3: "parse_custom_meet_csv u rows = Inr m \<longrightarrow>
        individual_results m =
          individual_loop (skip_individual_header (snd (team_loop (drop 4 rows))))"
    using parse_custom_Inr by blast
  have 4: "5 \<le> length rows \<and> list_all (\<lambda>r. r \<noteq> []) (take 4 rows) \<longrightarrow>
        (\<exists>m'. parse_custom_meet_csv u rows = Inr m'
           \<and> individual_results m' =
               individual_loop (skip_individual_header (snd (team_loop (drop 4 rows)))))"
    using parse_custom_returns by blast
  show ?thesis
    by (intro conjI) (rule 1 2 3 4)+
qed

theorem data_rows_by_dialect_witness:
  "meet_page_of simple_reader unescape_basic meet_lines = Inr meet_page_sample
   \<and> 1 \<le> length (mp_individuals meet_page_sample)
   \<and> 6 \<le> length meet_lines_no_rows
   \<and> length (indiv_rows_of simple_reader meet_lines_no_rows) < 2
   \<and> meet_page_of simple_reader unescape_basic meet_lines_no_rows = Inl (Skip NoDataRows)
   \<and> 5 \<le> length custom_rows_no_individuals
   \<and> (\<exists>m'. parse_custom_meet_csv unescape_basic custom_rows_no_individuals = Inr m'
         \<and> individual_results m' =
             individual_loop
               (skip_individual_header (snd (team_loop (drop 4 custom_rows_no_individuals)))))
   \<and> individual_loop
        (skip_individual_header (snd (team_loop (drop 4 custom_rows_no_individuals)))) = []"
proof -
  note t = data_rows_by_dialect
    [of simple_reader unescape_basic meet_lines meet_page_sample]
  note s = data_rows_by_dialect
    [of simple_reader unescape_basic meet_lines_no_rows]
  note r = data_rows_by_dialect
    [where u = unescape_basic and rows = custom_rows_no_individuals]
  have a: "1 \<le> length (mp_individuals meet_page_sample)"
    using t [THEN conjunct1] meet_page_of_sample by (rule mp)
  have b: "meet_page_of simple_reader unescape_basic meet_lines_no_rows = Inl (Skip NoDataRows)"
    using s [THEN conjunct2, THEN conjunct1] no_rows_facts by blast
  have c: "\<exists>m'. parse_custom_meet_csv unescape_basic custom_rows_no_individuals = Inr m'
         \<and> individual_results m' =
             individual_loop
               (skip_individual_header (snd (team_loop (drop 4 custom_rows_no_individuals))))"
    using r [THEN conjunct2, THEN conjunct2, THEN conjunct2] custom_short_facts(3,4) by blast
  have d: "individual_loop
        (skip_individual_header (snd (team_loop (drop 4 custom_rows_no_individuals)))) = []"
    by code_simp
  show ?thesis
    by (intro conjI) (rule meet_page_of_sample a b no_rows_facts custom_short_facts(3) c d)+
qed

text \<open>
  C6, as the claim states it, fails for \<open>build_race_page_html\<close>: its filter compares the
  trimmed team in lower case, so a team written "ann arbor skyline" passes, and when no
  row passes it shows all runners instead of none.
\<close>

theorem team_filter_counterexample:
  "skyline_of [result_bo, result_cy] = [result_bo]
   \<and> strip (ir_team result_bo) \<noteq> SKYLINE_TEAM_NAME
   \<and> skyline_of [result_cy] = []
   \<and> runners_of [result_cy] = [result_cy]"
  by (intro conjI) (rule runners_samples)+

text \<open>
  C6, amended. In meet_builder.py the rows of a page are exactly the individual rows
  whose trimmed team equals "Ann Arbor Skyline" in the same letter case; when no row
  matches, the file still gives a page, with no Skyline rows. In csv_to_race_page_html.py
  the filter compares the trimmed team in lower case with "ann arbor skyline", and the
  page shows the matching runners, or all runners when none matches.
\<close>

theorem team_filter_by_dialect:
  "(meet_page_of reader u lines = Inr page \<longrightarrow>
      mset (mp_skyline page) = mset (skyline_filter (mp_individuals page)))
   \<and> skyline_filter ds = filter (\<lambda>r. strip (safe_get r ''Team'' []) = ''Ann Arbor Skyline'') ds
   \<and> (6 \<le> length lines \<and> find_line_index lines ''Place,Team,Score'' \<noteq> None
        \<and> find_line_index lines ''Place,Grade,Name,'' \<noteq> None
        \<and> 2 \<le> length (indiv_rows_of reader lines)
        \<and> skyline_filter (indiv_dicts_of (indiv_rows_of reader lines)) = []
      \<longrightarrow> (\<exists>p. meet_page_of reader u lines = Inr p \<and> mp_skyline p = [] \<and> mp_rows p = []))
   \<and> skyline_of rs = filter (\<lambda>r. lower (strip (ir_team r)) = ''ann arbor skyline'') rs
   \<and> (skyline_of rs = [] \<longrightarrow> runners_of rs = rs)
   \<and> (skyline_of rs \<noteq> [] \<longrightarrow> runners_of rs = skyline_of rs)"
proof -
  have 1: "meet_page_of reader u lines = Inr page \<longrightarrow>
      mset (mp_skyline page) = mset (skyline_filter (mp_individuals page))"
    using meet_page_skyline by blast
  have 2: "skyline_filter ds =
      filter (\<lambda>r. strip (safe_get r ''Team'' []) = ''Ann Arbor Skyline'') ds"
    by (simp add: skyline_filter_def SKYLINE_TEAM_NAME_def)
  have 3: "6 \<le> length lines \<and> find_line_index lines ''Place,Team,Score'' \<noteq> None
        \<and> find_line_index lines ''Place,Grade,Name,'' \<noteq> None
        \<and> 2 \<le> length (indiv_rows_of reader lines)
        \<and> skyline_filter (indiv_dicts_of (indiv_rows_of reader lines)) = []
      \<longrightarrow> (\<exists>p. meet_page_of reader u lines = Inr p \<and> mp_skyline p = [] \<and> mp_rows p = [])"
  proof
    assume a: "6 \<le> length lines \<and> find_line_index lines ''Place,Team,Score'' \<noteq> None
        \<and> find_line_index lines ''Place,Grade,Name,'' \<noteq> None
        \<and> 2 \<le> length (indiv_rows_of reader lines)
        \<and> skyline_filter (indiv_dicts_of (indiv_rows_of reader lines)) = []"
    then have "meet_page_of reader u lines =
       Inr \<lparr>mp_name = strip (lines ! 0), mp_date = strip (lines ! 1), mp_link = strip (lines ! 2),
          mp_summary = strip_html u (strip (lines ! 3)),
          mp_individuals = indiv_dicts_of (indiv_rows_of reader lines),
          mp_skyline = [], mp_rows = []\<rparr>"
      by (intro meet_page_no_skyline) simp_all
    then show "\<exists>p. meet_page_of reader u lines = Inr p \<and> mp_skyline p = [] \<and> mp_rows p = []"
      by simp
  qed
  have 4: "skyline_of rs = filter (\<lambda>r. lower (strip (ir_team r)) = ''ann arbor skyline'') rs"
    by (simp add: skyline_of_def)
  have 5: "skyline_of rs = [] \<longrightarrow> runners_of rs = rs"
    by (simp add: runners_of_def)
  have 6: "skyline_of rs \<noteq> [] \<longrightarrow> runners_of rs = skyline_of rs"
    by (simp add: runners_of_def)
  show ?thesis
    by (intro conjI) (rule 1 2 3 4 5 6)+
qed

theorem team_filter_by_dialect_witness:
  "meet_page_of simple_reader unescape_basic meet_lines = Inr meet_page_sample
   \<and> mset (mp_skyline meet_page_sample) = mset (skyline_filter (mp_individuals meet_page_sample))
   \<and> mp_skyline meet_page_sample = [row_bo, row_al]
   \<and> skyline_filter (indiv_dicts_of (indiv_rows_of simple_reader meet_lines_other_team)) = []
   \<and> (\<exists>p. meet_page_of simple_reader unescape_basic meet_lines_other_team = Inr p
         \<and> mp_skyline p = [] \<and> mp_rows p = [])
   \<and> skyline_of [result_cy] = []
   \<and> runners_of [result_cy] = [result_cy]
   \<and> skyline_of [result_bo, result_cy] = [result_bo]
   \<and> runners_of [result_bo, result_cy] = [result_bo]"
proof -
  note t = team_filter_by_dialect
    [of simple_reader unescape_basic meet_lines meet_page_sample "[]" "[result_cy]"]
  note s = team_filter_by_dialect
    [of simple_reader unescape_basic meet_lines_other_team meet_page_sample "[]"
      "[result_bo, result_cy]"]
  have a: "mset (mp_skyline meet_page_sample) = mset (skyline_filter (mp_individuals meet_page_sample))"
    using t [THEN conjunct1] meet_page_of_sample by (rule mp)
  have b: "mp_skyline meet_page_sample = [row_bo, row_al]"
    by (simp add: meet_page_sample_def)
  have c: "\<exists>p. meet_page_of simple_reader unescape_basic meet_lines_other_team = Inr p
         \<and> mp_skyline p = [] \<and> mp_rows p = []"
    using s [THEN conjunct2, THEN conjunct2, THEN conjunct1] other_team_facts by blast
  have d: "runners_of [result_cy] = [result_cy]"
    using t [THEN conjunct2, THEN conjunct2, THEN conjunct2, THEN conjunct2, THEN conjunct1]
      runners_samples(3) by (rule mp)
  have ne: "skyline_of [result_bo, result_cy] \<noteq> []"
    by (simp add: runners_samples(1))
  have "runners_of [result_bo, result_cy] = skyline_of [result_bo, result_cy]"
    using s [THEN conjunct2, THEN conjunct2, THEN conjunct2, THEN conjunct2, THEN conjunct2] ne
    by (rule mp)
  then have e: "runners_of [result_bo, result_cy] = [result_bo]"
    by (simp only: runners_samples(1))
  show ?thesis
    by (intro conjI)
      (rule meet_page_of_sample a b other_team_facts(5) c runners_samples(3) d
        runners_samples(1) e)+
qed




end
